theory Spec2Isabelle
  imports Complex_Main "HOL-Library.Multiset" "HOL-Library.Log_Nat" "HOL-Library.Char_ord"
    "HOL-Library.List_Lexorder"
begin

section \<open>Values and functions of the Go library\<close>

text \<open>
  Strings are byte strings. A \<open>time.Time\<close> that is a reading of the clock is an instant in
  nanoseconds counted from the zero time (so \<open>IsZero\<close> is \<open>t = 0\<close>); a \<open>time.Duration\<close> is an
  int64 count of nanoseconds. \<open>Time.Sub\<close> saturates at the ends of the int64 range, and
  arithmetic on durations and on \<open>int\<close> wraps around.
\<close>

type_synonym Time = int
type_synonym Duration = int

definition minDuration :: Duration where "minDuration = - (2 ^ 63)"
definition maxDuration :: Duration where "maxDuration = 2 ^ 63 - 1"

definition wrap64 :: "int \<Rightarrow> int" where
  "wrap64 x = (x + 2 ^ 63) mod 2 ^ 64 - 2 ^ 63"

definition Sub :: "Time \<Rightarrow> Time \<Rightarrow> Duration" where
  "Sub t u = (if t - u > maxDuration then maxDuration
              else if t - u < minDuration then minDuration else t - u)"

definition IsZero :: "Time \<Rightarrow> bool" where "IsZero t = (t = 0)"

definition Before :: "Time \<Rightarrow> Time \<Rightarrow> bool" where "Before t u = (t < u)"

text \<open>
  The \<open>time.Time\<close> of a log entry is an instant together with the offset of its zone from UTC
  in seconds, which \<open>Format\<close> prints. The context map of a log entry is kept as what
  \<open>json.Marshal\<close> makes of it: the nil map, a map that marshals to a JSON text, or a map on
  which \<open>json.Marshal\<close> fails with an error text.
\<close>

record timeTime =
  instant :: Time
  zone_offset :: int

datatype go_context = NilContext | JsonContext string | BadContext string

text \<open>
  Four functions of the library are parameters of the model, gathered in one record that
  every definition calling one of them takes as \<open>lib\<close>:
  \<open>strings.Map(unicode.ToUpper, s)\<close>, \<open>t.Format(time.RFC3339)\<close>,
  \<open>time.Parse(time.RFC3339, s)\<close> and \<open>json.Unmarshal\<close> into a map; the last two give \<open>None\<close>
  where the library returns an error.
\<close>

record library =
  unicode_ToUpper :: "string \<Rightarrow> string"
  time_Format :: "timeTime \<Rightarrow> string"
  time_Parse :: "string \<Rightarrow> timeTime option"
  json_Unmarshal :: "string \<Rightarrow> go_context option"

text \<open>
  \<open>strings.ToUpper\<close> maps a string of ASCII bytes byte by byte, \<open>a\<close>..\<open>z\<close> to \<open>A\<close>..\<open>Z\<close>; a
  string with a byte from \<open>0x80\<close> on goes through the Unicode mapping.
\<close>

definition ToUpper_byte :: "char \<Rightarrow> char" where
  "ToUpper_byte c =
     (let n = (of_char c :: nat) in if 97 \<le> n \<and> n \<le> 122 then char_of (n - 32) else c)"

definition ToUpper :: "library \<Rightarrow> string \<Rightarrow> string" where
  "ToUpper lib s =
     (if list_all (\<lambda>c. (of_char c :: nat) < 128) s then map ToUpper_byte s
      else unicode_ToUpper lib s)"

section \<open>Log levels (package log\_levels)\<close>

type_synonym LogLevel = string

definition LogLevelTrace :: LogLevel where "LogLevelTrace = ''TRACE''"
definition LogLevelDebug :: LogLevel where "LogLevelDebug = ''DEBUG''"
definition LogLevelInfo :: LogLevel where "LogLevelInfo = ''INFO''"
definition LogLevelWarn :: LogLevel where "LogLevelWarn = ''WARN''"
definition LogLevelError :: LogLevel where "LogLevelError = ''ERROR''"
definition LogLevelFatal :: LogLevel where "LogLevelFatal = ''FATAL''"

definition allowedLogLevels :: "string \<rightharpoonup> LogLevel" where
  "allowedLogLevels = map_of
     [(''TRACE'', LogLevelTrace), (''DEBUG'', LogLevelDebug), (''INFO'', LogLevelInfo),
      (''WARN'', LogLevelWarn), (''ERROR'', LogLevelError), (''FATAL'', LogLevelFatal)]"

text \<open>\<open>orderMap[l]\<close> reads a Go map: a key that is absent reads as the zero value 0.\<close>

definition orderMap_entries :: "(LogLevel \<times> int) list" where
  "orderMap_entries =
     [(LogLevelTrace, 0), (LogLevelDebug, 1), (LogLevelInfo, 2),
      (LogLevelWarn, 3), (LogLevelError, 4), (LogLevelFatal, 5)]"

definition orderMap :: "LogLevel \<Rightarrow> int" where
  "orderMap l = (case map_of orderMap_entries l of None \<Rightarrow> 0 | Some n \<Rightarrow> n)"

definition IsValidLogLevel :: "library \<Rightarrow> string \<Rightarrow> bool" where
  "IsValidLogLevel lib level = (allowedLogLevels (ToUpper lib level) \<noteq> None)"

definition NormalizeLogLevel :: "library \<Rightarrow> string \<Rightarrow> LogLevel" where
  "NormalizeLogLevel lib level = ToUpper lib level"

definition LevelLessThan :: "LogLevel \<Rightarrow> LogLevel \<Rightarrow> bool" where
  "LevelLessThan a b = (orderMap a < orderMap b)"

definition AllLogLevels :: "LogLevel list" where
  "AllLogLevels =
     [LogLevelTrace, LogLevelDebug, LogLevelInfo, LogLevelWarn, LogLevelError, LogLevelFatal]"

section \<open>Package utils\<close>

datatype error =
    ErrMaxRequests      \<comment> \<open>maxRequests must be between 1 and 100000\<close>
  | ErrWindow           \<comment> \<open>window duration must be > 0\<close>
  | ErrLimitTooLarge    \<comment> \<open>limit too large\<close>
  | ErrInvalidLogLevel  \<comment> \<open>invalid log level\<close>
  | ErrInvalidLevel string   \<comment> \<open>invalid log level: <entry.Level>\<close>
  | ErrStorage string   \<comment> \<open>an error returned by the database driver\<close>
  | PanicMustRegister   \<comment> \<open>not a returned error: \<open>prometheus.MustRegister\<close> panics\<close>

definition ValidateWindow :: "Duration \<Rightarrow> error option" where
  "ValidateWindow w = (if w \<le> 0 then Some ErrWindow else None)"

definition ValidateMaxRequests :: "int \<Rightarrow> error option" where
  "ValidateMaxRequests m = (if m < 1 \<or> m > 100000 then Some ErrMaxRequests else None)"

definition ValidatePageLimit :: "int \<Rightarrow> int \<Rightarrow> error + (int \<times> int)" where
  "ValidatePageLimit page limit =
     (let page1 = (if page < 1 then 1 else page);
          limit1 = (if limit < 1 then 10 else limit)
      in if limit1 > 1000 then Inl ErrLimitTooLarge else Inr (page1, limit1))"

text \<open>
  \<open>SafeParseTimestamp\<close>: \<open>now\<close> is the reading of \<open>time.Now()\<close> that is returned when the text
  does not parse.
\<close>

definition SafeParseTimestamp :: "library \<Rightarrow> timeTime \<Rightarrow> string \<Rightarrow> timeTime" where
  "SafeParseTimestamp lib now ts =
     (case time_Parse lib ts of None \<Rightarrow> now | Some parsed \<Rightarrow> parsed)"

definition MarshalContext :: "go_context \<Rightarrow> string + string" where
  "MarshalContext ctx =
     (case ctx of NilContext \<Rightarrow> Inr [] | BadContext e \<Rightarrow> Inl e | JsonContext b \<Rightarrow> Inr b)"

text \<open>\<open>UnmarshalContext\<close> returns the map, or \<open>None\<close> for an error.\<close>

definition UnmarshalContext :: "library \<Rightarrow> string \<Rightarrow> go_context option" where
  "UnmarshalContext lib jsonStr =
     (if jsonStr = [] then Some NilContext else json_Unmarshal lib jsonStr)"

section \<open>The rate limiter (package ratelimit)\<close>

record clientData =
  count :: int
  firstSeen :: Time

text \<open>
  \<open>requests\<close> is a Go map. It is kept as an association list with distinct keys; the order of
  the list stands for the order in which \<open>range\<close> visits the map, which Go leaves open.
  \<open>perLevelLimits\<close> may be the nil map (\<open>None\<close>). The three Prometheus metrics are kept as
  plain numbers.
\<close>

record RateLimiter =
  requests :: "(string \<times> clientData) list"
  maxRequests :: int
  maxClients :: int
  window :: Duration
  minLevel :: LogLevel
  perLevelLimits :: "(LogLevel \<rightharpoonup> int) option"
  requestsTotal :: nat
  blockedTotal :: nat
  activeClients :: int

definition map_store :: "string \<Rightarrow> clientData \<Rightarrow> (string \<times> clientData) list \<Rightarrow> (string \<times> clientData) list" where
  "map_store k v m =
     (if k \<in> fst ` set m then map (\<lambda>(k', v'). if k' = k then (k', v) else (k', v')) m
      else m @ [(k, v)])"

definition map_delete :: "string \<Rightarrow> (string \<times> clientData) list \<Rightarrow> (string \<times> clientData) list" where
  "map_delete k m = filter (\<lambda>(k', v'). k' \<noteq> k) m"

text \<open>
  \<open>initMetrics\<close> registers three collectors under fixed names with the default registry of
  the process, and \<open>prometheus.MustRegister\<close> panics when a collector of the same name is
  registered already. \<open>registered\<close> says whether that is so when the constructor runs.
\<close>

definition NewRateLimiterWithLevel ::
  "bool \<Rightarrow> int \<Rightarrow> Duration \<Rightarrow> int \<Rightarrow> LogLevel \<Rightarrow> (LogLevel \<rightharpoonup> int) option
     \<Rightarrow> error + RateLimiter" where
  "NewRateLimiterWithLevel registered maxReq win maxCl minLvl perLevel =
     (case ValidateMaxRequests maxReq of
        Some e \<Rightarrow> Inl e
      | None \<Rightarrow>
         (case ValidateWindow win of
            Some e \<Rightarrow> Inl e
          | None \<Rightarrow>
              if registered then Inl PanicMustRegister
              else
                Inr \<lparr> requests = [], maxRequests = maxReq, maxClients = maxCl, window = win,
                      minLevel = minLvl, perLevelLimits = perLevel,
                      requestsTotal = 0, blockedTotal = 0, activeClients = 0 \<rparr>))"

definition exists :: "RateLimiter \<Rightarrow> string \<Rightarrow> bool" where
  "exists rl ip = (map_of (requests rl) ip \<noteq> None)"

text \<open>The scan of \<open>evictOldest\<close>: one step per map entry, carrying \<open>(oldestIP, oldestTime)\<close>.\<close>

definition oldest_step :: "string \<times> clientData \<Rightarrow> string \<times> Time \<Rightarrow> string \<times> Time" where
  "oldest_step e acc =
     (if IsZero (snd acc) \<or> Before (firstSeen (snd e)) (snd acc)
      then (fst e, firstSeen (snd e)) else acc)"

definition evictOldest :: "RateLimiter \<Rightarrow> RateLimiter" where
  "evictOldest rl =
     (if int (length (requests rl)) \<le> maxClients rl then rl
      else rl\<lparr>requests := map_delete (fst (fold oldest_step (requests rl) ('''', 0))) (requests rl)\<rparr>)"

text \<open>
  \<open>allow\<close> returns \<open>(allowed, retryAfter)\<close> and the limiter after the call; \<open>now\<close> is the
  reading of \<open>time.Now()\<close>. \<open>count++\<close> runs only below \<open>maxRequests\<close>, so it cannot overflow.
\<close>

definition allow :: "RateLimiter \<Rightarrow> string \<Rightarrow> int \<Rightarrow> Time \<Rightarrow> (bool \<times> Duration) \<times> RateLimiter" where
  "allow rl0 ip maxReq now =
     (let rl = (if \<not> exists rl0 ip \<and> int (length (requests rl0)) \<ge> maxClients rl0
                then evictOldest rl0 else rl0)
      in case map_of (requests rl) ip of
           None \<Rightarrow>
             (let rs = map_store ip \<lparr>count = 1, firstSeen = now\<rparr> (requests rl)
              in ((True, 0), rl\<lparr>requests := rs, activeClients := int (length rs),
                                requestsTotal := requestsTotal rl + 1\<rparr>))
         | Some client \<Rightarrow>
             if Sub now (firstSeen client) > window rl then
               (let rs = map_store ip \<lparr>count = 1, firstSeen = now\<rparr> (requests rl)
                in ((True, 0), rl\<lparr>requests := rs, activeClients := int (length rs),
                                  requestsTotal := requestsTotal rl + 1\<rparr>))
             else if count client \<ge> maxReq then
               ((False, wrap64 (window rl - Sub now (firstSeen client))),
                rl\<lparr>blockedTotal := blockedTotal rl + 1\<rparr>)
             else
               ((True, 0),
                rl\<lparr>requests := map_store ip (client\<lparr>count := count client + 1\<rparr>) (requests rl),
                   requestsTotal := requestsTotal rl + 1\<rparr>))"

subsection \<open>float64 arithmetic used by \<open>Duration.Seconds\<close>\<close>

text \<open>
  \<open>Duration.Seconds\<close> is \<open>float64(d / Second) + float64(d % Second) / 1e9\<close>. A float64 value is
  kept as the rational it denotes; \<open>float64\<close> rounds a rational to the nearest number with a
  53-bit significand, ties to even (the values that occur are far from the subnormal and the
  overflow range). \<open>binade x\<close> is the exponent \<open>e\<close> with \<open>2^e \<le> x < 2^(e+1)\<close>.
\<close>

definition pow2 :: "int \<Rightarrow> rat" where
  "pow2 k = (if 0 \<le> k then 2 ^ nat k else 1 / 2 ^ nat (- k))"

definition binade :: "rat \<Rightarrow> int" where
  "binade x =
     (let k = bitlen (fst (quotient_of x)) - bitlen (snd (quotient_of x))
      in if pow2 k \<le> x then k else k - 1)"

definition round_half_even :: "rat \<Rightarrow> int" where
  "round_half_even y =
     (let f = \<lfloor>y\<rfloor>; r = y - of_int f
      in if r < 1 / 2 then f else if 1 / 2 < r then f + 1 else if even f then f else f + 1)"

definition float64_pos :: "rat \<Rightarrow> rat" where
  "float64_pos x = (let u = pow2 (binade x - 52) in of_int (round_half_even (x / u)) * u)"

definition float64 :: "rat \<Rightarrow> rat" where
  "float64 x = (if x = 0 then 0 else if x < 0 then - float64_pos (- x) else float64_pos x)"

text \<open>Go's integer \<open>/\<close> and \<open>%\<close> truncate toward zero; \<open>int(f)\<close> drops the fraction of \<open>f\<close>.\<close>

definition go_quot :: "int \<Rightarrow> int \<Rightarrow> int" where
  "go_quot a b = sgn a * sgn b * (\<bar>a\<bar> div \<bar>b\<bar>)"

definition go_rem :: "int \<Rightarrow> int \<Rightarrow> int" where
  "go_rem a b = sgn a * (\<bar>a\<bar> mod \<bar>b\<bar>)"

definition int_of_float :: "rat \<Rightarrow> int" where
  "int_of_float f = (if 0 \<le> f then \<lfloor>f\<rfloor> else \<lceil>f\<rceil>)"

definition Second :: Duration where "Second = 1000000000"

definition Seconds :: "Duration \<Rightarrow> rat" where
  "Seconds d =
     float64 (float64 (of_int (go_quot d Second))
              + float64 (float64 (of_int (go_rem d Second)) / 1000000000))"

subsection \<open>The HTTP middleware\<close>

text \<open>
  A request is seen through the value of its \<open>X-Log-Level\<close> header (empty when the header is
  missing), the client address that \<open>GetClientIP\<close> extracts, and the clock reading of the
  call. The response is either the next handler's, or status 429 with the \<open>Retry-After\<close>
  header's number of seconds.
\<close>

datatype response = Next | TooManyRequests int

definition effective_maxReq :: "RateLimiter \<Rightarrow> LogLevel \<Rightarrow> int" where
  "effective_maxReq rl level =
     (case perLevelLimits rl of
        None \<Rightarrow> maxRequests rl
      | Some m \<Rightarrow> (case m level of Some lvlMax \<Rightarrow> lvlMax | None \<Rightarrow> maxRequests rl))"

definition Middleware ::
  "library \<Rightarrow> RateLimiter \<Rightarrow> string \<Rightarrow> string \<Rightarrow> Time \<Rightarrow> response \<times> RateLimiter" where
  "Middleware lib rl levelStr ip now =
     (let level = NormalizeLogLevel lib levelStr
      in if LevelLessThan level (minLevel rl) then (Next, rl)
         else
           (let maxReq = effective_maxReq rl level;
                res = allow rl ip maxReq now;
                allowed = fst (fst res);
                retryAfter = snd (fst res)
            in if \<not> allowed then
                 (let seconds = int_of_float (Seconds retryAfter)
                  in (TooManyRequests (if seconds < 0 then 0 else seconds), snd res))
               else (Next, snd res)))"

text \<open>A client's requests served one after the other, each with its own clock reading.\<close>

fun serve ::
  "library \<Rightarrow> RateLimiter \<Rightarrow> string \<Rightarrow> string \<Rightarrow> Time list \<Rightarrow> response list \<times> RateLimiter" where
  "serve lib rl levelStr ip [] = ([], rl)"
| "serve lib rl levelStr ip (now # ts) =
     (let r = Middleware lib rl levelStr ip now;
          rest = serve lib (snd r) levelStr ip ts
      in (fst r # fst rest, snd rest))"

text \<open>
  The requests of one client as they reach the limiter: each comes with the limiter as it
  finds it and with the clock reading of the call. Between two of them the limiter may have
  served other clients; \<open>in_sequence\<close> asks only that each request finds the client's own
  window and the configuration as the client's previous request left them.
\<close>

definition keeps_window :: "string \<Rightarrow> RateLimiter \<Rightarrow> RateLimiter \<Rightarrow> bool" where
  "keeps_window ip a b =
     (map_of (requests b) ip = map_of (requests a) ip \<and> window b = window a
      \<and> minLevel b = minLevel a \<and> perLevelLimits b = perLevelLimits a
      \<and> maxRequests b = maxRequests a)"

fun in_sequence :: "library \<Rightarrow> string \<Rightarrow> string \<Rightarrow> (RateLimiter \<times> Time) list \<Rightarrow> bool" where
  "in_sequence lib levelStr ip (x # y # rest) =
     (keeps_window ip (snd (Middleware lib (fst x) levelStr ip (snd x))) (fst y)
      \<and> in_sequence lib levelStr ip (y # rest))"
| "in_sequence lib levelStr ip [x] = True"
| "in_sequence lib levelStr ip [] = True"

definition responses ::
  "library \<Rightarrow> string \<Rightarrow> string \<Rightarrow> (RateLimiter \<times> Time) list \<Rightarrow> response list" where
  "responses lib levelStr ip steps =
     map (\<lambda>x. fst (Middleware lib (fst x) levelStr ip (snd x))) steps"

text \<open>
  A run used below: quota 2 and a window of one second. Client \<open>C\<close> sends three requests,
  at clock readings 1000, 1001 and 1002; client \<open>D\<close> sends one between the first two.
\<close>

definition quota_limiter :: RateLimiter where
  "quota_limiter = \<lparr>requests = [], maxRequests = 2, maxClients = 10, window = 1000000000,
        minLevel = ''INFO'', perLevelLimits = None, requestsTotal = 0, blockedTotal = 0,
        activeClients = 0\<rparr>"

definition quota_steps :: "(RateLimiter \<times> Time) list" where
  "quota_steps =
     [(quota_limiter\<lparr>requests := [(''C'', \<lparr>count = 1, firstSeen = 1000\<rparr>),
                                    (''D'', \<lparr>count = 1, firstSeen = 1000\<rparr>)],
                      requestsTotal := 2, activeClients := 2\<rparr>, 1001),
      (quota_limiter\<lparr>requests := [(''C'', \<lparr>count = 2, firstSeen = 1000\<rparr>),
                                    (''D'', \<lparr>count = 1, firstSeen = 1000\<rparr>)],
                      requestsTotal := 3, activeClients := 2\<rparr>, 1002)]"

section \<open>The SQLite log store (package logger)\<close>

record LogEntry =
  Level :: string
  Message :: string
  Timestamp :: timeTime
  Context :: go_context

text \<open>
  Table \<open>logs\<close>: \<open>id INTEGER PRIMARY KEY AUTOINCREMENT\<close> and four text columns. The rows are
  listed in the order of their insertion. \<open>sqlite_sequence\<close> is the largest id the table has
  ever handed out. Every row is one that \<open>Write\<close> inserted, so its \<open>context\<close> is a text (an
  empty one for the nil map) and never \<open>NULL\<close>.
\<close>

record row =
  row_id :: int
  row_level :: string
  row_message :: string
  row_timestamp :: string
  row_context :: string

record SQLiteLogger =
  logs :: "row list"
  sqlite_sequence :: int
  maxRows :: int
  logMinLevel :: LogLevel
  totalErrors :: nat

text \<open>\<open>INSERT INTO logs(level, message, timestamp, context) VALUES (?, ?, ?, ?)\<close>\<close>

definition sql_insert :: "SQLiteLogger \<Rightarrow> string \<Rightarrow> string \<Rightarrow> string \<Rightarrow> string \<Rightarrow> SQLiteLogger" where
  "sql_insert l lvl msg ts ctx =
     (let new_id = max (sqlite_sequence l) (fold max (map row_id (logs l)) 0) + 1
      in l\<lparr>logs := logs l @ [\<lparr>row_id = new_id, row_level = lvl, row_message = msg,
                                 row_timestamp = ts, row_context = ctx\<rparr>],
            sqlite_sequence := new_id\<rparr>)"

text \<open>
  \<open>Write\<close> returns the error (or \<open>None\<close> for nil) and the store after the call. \<open>fault\<close> is what
  the driver answers to \<open>insertStmt.Exec\<close> when the call gets that far: \<open>None\<close>, or an error.
\<close>

definition Write ::
  "library \<Rightarrow> SQLiteLogger \<Rightarrow> LogEntry \<Rightarrow> string option \<Rightarrow> error option \<times> SQLiteLogger" where
  "Write lib l entry fault =
     (let entryLevel = NormalizeLogLevel lib (Level entry)
      in if \<not> IsValidLogLevel lib entryLevel then
           (Some (ErrInvalidLevel (Level entry)), l\<lparr>totalErrors := totalErrors l + 1\<rparr>)
         else if LevelLessThan entryLevel (logMinLevel l) then (None, l)
         else
           (let ctxJSON = (case MarshalContext (Context entry) of Inl e \<Rightarrow> ''{}'' | Inr b \<Rightarrow> b);
                ts = time_Format lib (Timestamp entry)
            in case fault of
                 Some e \<Rightarrow> (Some (ErrStorage e), l\<lparr>totalErrors := totalErrors l + 1\<rparr>)
               | None \<Rightarrow> (None, sql_insert l entryLevel (Message entry) ts ctxJSON)))"

text \<open>
  \<open>LIMIT n\<close>: a negative \<open>n\<close> means no limit. \<open>OFFSET k\<close>: a negative \<open>k\<close> counts as zero.
\<close>

definition sql_limit :: "int \<Rightarrow> 'a list \<Rightarrow> 'a list" where
  "sql_limit n xs = (if n < 0 then xs else take (nat n) xs)"

definition sql_offset :: "int \<Rightarrow> 'a list \<Rightarrow> 'a list" where
  "sql_offset k xs = (if k < 0 then xs else drop (nat k) xs)"

text \<open>
  \<open>DELETE FROM logs WHERE id NOT IN (SELECT id FROM logs ORDER BY id DESC LIMIT ?)\<close>
\<close>

definition GenerateCleanupQuery :: "int \<Rightarrow> row list \<Rightarrow> row list" where
  "GenerateCleanupQuery n rs =
     (let kept = sql_limit n (rev (sort (map row_id rs)))
      in filter (\<lambda>r. \<not> (row_id r \<notin> set kept)) rs)"

definition cleanup :: "SQLiteLogger \<Rightarrow> string option \<Rightarrow> error option \<times> SQLiteLogger" where
  "cleanup l fault =
     (if maxRows l \<le> 0 then (None, l)
      else case fault of
             Some e \<Rightarrow> (Some (ErrStorage e), l)
           | None \<Rightarrow> (None, l\<lparr>logs := GenerateCleanupQuery (maxRows l) (logs l)\<rparr>))"

text \<open>
  What the database driver does during one call of \<open>QueryLogs\<close>. \<open>access_path\<close> is the place
  of each row on the path along which the engine visits the table (the table itself in
  rowid order, or an index), which is the engine's choice. \<open>Query_error\<close> is the error of
  \<open>db.Query\<close>, if any. \<open>Next_error i\<close> says that \<open>rows.Next()\<close> fails when asked for the row at
  position \<open>i\<close> of the result, and \<open>Scan_error i\<close> is the error of \<open>rows.Scan\<close> on that row, if
  any.
\<close>

record driver =
  access_path :: "row \<Rightarrow> int"
  Query_error :: "string option"
  Next_error :: "nat \<Rightarrow> bool"
  Scan_error :: "nat \<Rightarrow> string option"

text \<open>
  \<open>SELECT level, message, timestamp, context FROM logs [WHERE level = ?]
  ORDER BY timestamp DESC LIMIT ? OFFSET ?\<close>. The \<open>timestamp\<close> column is text and is compared
  byte by byte. The engine sorts the selected rows by that column, descending; the statement
  names no other sort key, so rows with equal timestamps stay in the order of the access
  path.
\<close>

definition sql_where_level :: "LogLevel \<Rightarrow> row list \<Rightarrow> row list" where
  "sql_where_level level rs = (if level \<noteq> [] then filter (\<lambda>r. row_level r = level) rs else rs)"

definition sql_order_by_timestamp_desc :: "(row \<Rightarrow> int) \<Rightarrow> row list \<Rightarrow> row list" where
  "sql_order_by_timestamp_desc path rs = rev (sort_key row_timestamp (rev (sort_key path rs)))"

definition sql_select :: "(row \<Rightarrow> int) \<Rightarrow> LogLevel \<Rightarrow> int \<Rightarrow> int \<Rightarrow> row list \<Rightarrow> row list" where
  "sql_select path level limit offset rs =
     sql_limit limit (sql_offset offset (sql_order_by_timestamp_desc path (sql_where_level level rs)))"

text \<open>
  The body of the loop over \<open>rows.Next()\<close> for a row that \<open>rows.Scan\<close> has read; \<open>now\<close> is the
  reading of \<open>time.Now()\<close> at that moment.
\<close>

definition scan_row :: "library \<Rightarrow> timeTime \<Rightarrow> row \<Rightarrow> LogEntry" where
  "scan_row lib now r =
     \<lparr>Level = row_level r, Message = row_message r,
      Timestamp = SafeParseTimestamp lib now (row_timestamp r),
      Context = (if row_context r \<noteq> [] then
                   (case UnmarshalContext lib (row_context r) of
                      None \<Rightarrow> NilContext
                    | Some ctx \<Rightarrow> ctx)
                 else NilContext)\<rparr>"

text \<open>
  The loop, from position \<open>i\<close> of the result on. \<open>clock i\<close> is the reading of \<open>time.Now()\<close>
  while the row at position \<open>i\<close> is handled. When \<open>rows.Next()\<close> fails, the loop ends as it
  does after the last row: \<open>rows.Err()\<close> is not read, and the entries read so far are
  returned with a nil error. An error of \<open>rows.Scan\<close> is returned.
\<close>

fun rows_loop ::
  "library \<Rightarrow> (nat \<Rightarrow> timeTime) \<Rightarrow> driver \<Rightarrow> nat \<Rightarrow> row list \<Rightarrow> error + LogEntry list" where
  "rows_loop lib clock d i [] = Inr []"
| "rows_loop lib clock d i (r # rs) =
     (if Next_error d i then Inr []
      else case Scan_error d i of
             Some e \<Rightarrow> Inl (ErrStorage e)
           | None \<Rightarrow>
               (case rows_loop lib clock d (Suc i) rs of
                  Inl e \<Rightarrow> Inl e
                | Inr entries \<Rightarrow> Inr (scan_row lib (clock i) r # entries)))"

definition QueryLogs ::
  "library \<Rightarrow> (nat \<Rightarrow> timeTime) \<Rightarrow> driver \<Rightarrow> SQLiteLogger \<Rightarrow> LogLevel \<Rightarrow> int \<Rightarrow> int
     \<Rightarrow> error + LogEntry list" where
  "QueryLogs lib clock d l level page limit =
     (case ValidatePageLimit page limit of
        Inl e \<Rightarrow> Inl e
      | Inr pl \<Rightarrow>
          if level \<noteq> [] \<and> \<not> IsValidLogLevel lib level then Inl ErrInvalidLogLevel
          else
            (let offset = wrap64 ((fst pl - 1) * snd pl)
             in case Query_error d of
                  Some e \<Rightarrow> Inl (ErrStorage e)
                | None \<Rightarrow>
                    rows_loop lib clock d 0
                      (sql_select (access_path d) level (snd pl) offset (logs l))))"

text \<open>Entries written one after the other, none of them hitting a storage fault.\<close>

fun write_all :: "library \<Rightarrow> SQLiteLogger \<Rightarrow> LogEntry list \<Rightarrow> SQLiteLogger" where
  "write_all lib l [] = l"
| "write_all lib l (e # es) = write_all lib (snd (Write lib l e None)) es"

subsection \<open>Notions used in the statements about the store\<close>

text \<open>An entry that \<open>Write\<close> inserts: its level is recognized and not below the minimum.\<close>

definition accepted :: "library \<Rightarrow> SQLiteLogger \<Rightarrow> LogEntry \<Rightarrow> bool" where
  "accepted lib l e =
     (IsValidLogLevel lib (NormalizeLogLevel lib (Level e))
      \<and> \<not> LevelLessThan (NormalizeLogLevel lib (Level e)) (logMinLevel l))"

text \<open>
  The row that \<open>Write\<close> inserts for an accepted entry when the table hands out the id \<open>i\<close>, and
  the entry that the loop of \<open>QueryLogs\<close> makes of that row at clock reading \<open>now\<close>.
\<close>

definition stored_row :: "library \<Rightarrow> int \<Rightarrow> LogEntry \<Rightarrow> row" where
  "stored_row lib i e =
     \<lparr>row_id = i, row_level = NormalizeLogLevel lib (Level e), row_message = Message e,
      row_timestamp = time_Format lib (Timestamp e),
      row_context = (case MarshalContext (Context e) of Inl err \<Rightarrow> ''{}'' | Inr b \<Rightarrow> b)\<rparr>"

definition read_back :: "library \<Rightarrow> timeTime \<Rightarrow> LogEntry \<Rightarrow> LogEntry" where
  "read_back lib now e = scan_row lib now (stored_row lib 0 e)"

text \<open>The entries that the loop makes of a list of rows when the driver reports no fault.\<close>

definition scan_rows :: "library \<Rightarrow> (nat \<Rightarrow> timeTime) \<Rightarrow> row list \<Rightarrow> LogEntry list" where
  "scan_rows lib clock rs = map (\<lambda>(i, r). scan_row lib (clock i) r) (enumerate 0 rs)"

definition no_fault :: "driver \<Rightarrow> bool" where
  "no_fault d = (Query_error d = None \<and> (\<forall>i. \<not> Next_error d i) \<and> (\<forall>i. Scan_error d i = None))"


subsection \<open>Sample values\<close>

text \<open>
  A library for the examples below. It agrees with the Go library on the texts and times
  that occur in them: ten UTC times one second apart, whose RFC 3339 texts parse back to
  them; the first instant of the year 10000, which \<open>Format\<close> prints with five digits and
  \<open>Parse\<close> refuses; the JSON document \<open>{}\<close>, an empty map; and the word \<open>info\<close> written with a
  dotless i (U+0131, the bytes \<open>c4 b1\<close>), whose upper case is \<open>INFO\<close>. Its values elsewhere
  are not used.
\<close>

definition sample_times :: "(string \<times> timeTime) list" where
  "sample_times =
     map (\<lambda>(s, txt). (txt, \<lparr>instant = 63890086320000000000 + s * 1000000000, zone_offset = 0\<rparr>))
       [(0, ''2025-08-06T14:12:00Z''), (1, ''2025-08-06T14:12:01Z''),
        (2, ''2025-08-06T14:12:02Z''), (3, ''2025-08-06T14:12:03Z''),
        (4, ''2025-08-06T14:12:04Z''), (5, ''2025-08-06T14:12:05Z''),
        (6, ''2025-08-06T14:12:06Z''), (7, ''2025-08-06T14:12:07Z''),
        (8, ''2025-08-06T14:12:08Z''), (9, ''2025-08-06T14:12:09Z'')]"

definition sample_time :: "int \<Rightarrow> timeTime" where
  "sample_time s = \<lparr>instant = 63890086320000000000 + s * 1000000000, zone_offset = 0\<rparr>"

definition year_10000 :: timeTime where
  "year_10000 = \<lparr>instant = 315537897600000000000, zone_offset = 0\<rparr>"

definition dotless_info :: string where
  "dotless_info = [CHR 0xC4, CHR 0xB1] @ ''nfo''"

definition sample_library :: library where
  "sample_library =
     \<lparr>unicode_ToUpper = (\<lambda>s. if s = dotless_info then ''INFO'' else s),
      time_Format = (\<lambda>t. if t = year_10000 then ''10000-01-01T00:00:00Z''
                          else case find (\<lambda>p. snd p = t) sample_times of
                                 Some p \<Rightarrow> fst p
                               | None \<Rightarrow> []),
      time_Parse = map_of sample_times,
      json_Unmarshal = (\<lambda>s. if s = ''{}'' then Some (JsonContext ''{}'') else None)\<rparr>"

text \<open>
  A driver that reports no fault and visits the table in rowid order, and a clock that
  reads 14:13:00 of the same day whenever it is asked.
\<close>

definition rowid_driver :: driver where
  "rowid_driver = \<lparr>access_path = row_id, Query_error = None, Next_error = (\<lambda>i. False),
                    Scan_error = (\<lambda>i. None)\<rparr>"

definition sample_clock :: "nat \<Rightarrow> timeTime" where
  "sample_clock i = sample_time 60"

text \<open>
  A run used below: a store with row bound 5 and minimum level \<open>DEBUG\<close>, and ten \<open>INFO\<close>
  entries \<open>log 0\<close> .. \<open>log 9\<close> whose timestamps go backwards, one second per entry.
\<close>

definition sweep_store :: SQLiteLogger where
  "sweep_store = \<lparr>logs = [], sqlite_sequence = 0, maxRows = 5, logMinLevel = ''DEBUG'',
                  totalErrors = 0\<rparr>"

definition sweep_entries :: "LogEntry list" where
  "sweep_entries =
     map (\<lambda>(m, s). \<lparr>Level = ''INFO'', Message = m, Timestamp = sample_time s,
                     Context = NilContext\<rparr>)
       [(''log 0'', 9), (''log 1'', 8), (''log 2'', 7), (''log 3'', 6), (''log 4'', 5),
        (''log 5'', 4), (''log 6'', 3), (''log 7'', 2), (''log 8'', 1), (''log 9'', 0)]"

definition sweep_rows :: "row list" where
  "sweep_rows =
     map (\<lambda>(i, m, ts). \<lparr>row_id = i, row_level = ''INFO'', row_message = m,
                         row_timestamp = ts, row_context = []\<rparr>)
       [(6, ''log 5'', ''2025-08-06T14:12:04Z''), (7, ''log 6'', ''2025-08-06T14:12:03Z''),
        (8, ''log 7'', ''2025-08-06T14:12:02Z''), (9, ''log 8'', ''2025-08-06T14:12:01Z''),
        (10, ''log 9'', ''2025-08-06T14:12:00Z'')]"

text \<open>Two entries with the same timestamp, and a store that holds nothing yet.\<close>

definition tie_entries :: "LogEntry list" where
  "tie_entries =
     [\<lparr>Level = ''INFO'', Message = ''first'', Timestamp = sample_time 0, Context = NilContext\<rparr>,
      \<lparr>Level = ''INFO'', Message = ''second'', Timestamp = sample_time 0, Context = NilContext\<rparr>]"

definition tie_rows :: "row list" where
  "tie_rows =
     [\<lparr>row_id = 1, row_level = ''INFO'', row_message = ''first'',
       row_timestamp = ''2025-08-06T14:12:00Z'', row_context = []\<rparr>,
      \<lparr>row_id = 2, row_level = ''INFO'', row_message = ''second'',
       row_timestamp = ''2025-08-06T14:12:00Z'', row_context = []\<rparr>]"

definition empty_store :: SQLiteLogger where
  "empty_store = \<lparr>logs = [], sqlite_sequence = 0, maxRows = 0, logMinLevel = ''INFO'',
                  totalErrors = 0\<rparr>"

section \<open>Properties of the log levels\<close>

text \<open>
  On the words used below, all of them ASCII, \<open>strings.ToUpper\<close> does not consult the Unicode
  mapping, so their normal forms are the same for every library.
\<close>

lemma ToUpper_ascii:
  assumes "list_all (\<lambda>c. (of_char c :: nat) < 128) s \<and> map ToUpper_byte s = t"
  shows "ToUpper lib s = t"
  using assms by (simp add: ToUpper_def)

lemma ToUpper_info: "ToUpper lib ''info'' = ''INFO''"
  by (rule ToUpper_ascii) code_simp

lemma ToUpper_debug: "ToUpper lib ''debug'' = ''DEBUG''"
  by (rule ToUpper_ascii) code_simp

lemma ToUpper_INFO: "ToUpper lib ''INFO'' = ''INFO''"
  by (rule ToUpper_ascii) code_simp

lemma ToUpper_DEBUG: "ToUpper lib ''DEBUG'' = ''DEBUG''"
  by (rule ToUpper_ascii) code_simp

lemma ToUpper_ERROR: "ToUpper lib ''ERROR'' = ''ERROR''"
  by (rule ToUpper_ascii) code_simp

lemma ToUpper_WRONGLEVEL: "ToUpper lib ''WRONGLEVEL'' = ''WRONGLEVEL''"
  by (rule ToUpper_ascii) code_simp

lemma NormalizeLogLevel_empty: "NormalizeLogLevel lib [] = []"
  by (simp add: NormalizeLogLevel_def ToUpper_def)

lemma NormalizeLogLevel_info: "NormalizeLogLevel lib ''info'' = ''INFO''"
  by (simp add: NormalizeLogLevel_def ToUpper_info)

lemma NormalizeLogLevel_debug: "NormalizeLogLevel lib ''debug'' = ''DEBUG''"
  by (simp add: NormalizeLogLevel_def ToUpper_debug)

lemma NormalizeLogLevel_INFO: "NormalizeLogLevel lib ''INFO'' = ''INFO''"
  by (simp add: NormalizeLogLevel_def ToUpper_INFO)

lemma NormalizeLogLevel_ERROR: "NormalizeLogLevel lib ''ERROR'' = ''ERROR''"
  by (simp add: NormalizeLogLevel_def ToUpper_ERROR)

lemma NormalizeLogLevel_WRONGLEVEL: "NormalizeLogLevel lib ''WRONGLEVEL'' = ''WRONGLEVEL''"
  by (simp add: NormalizeLogLevel_def ToUpper_WRONGLEVEL)

lemma NormalizeLogLevel_dotless_info: "NormalizeLogLevel sample_library dotless_info = ''INFO''"
  by code_simp

lemma allowedLogLevels_INFO: "allowedLogLevels ''INFO'' = Some LogLevelInfo"
  by (simp add: allowedLogLevels_def)

lemma allowedLogLevels_DEBUG: "allowedLogLevels ''DEBUG'' = Some LogLevelDebug"
  by (simp add: allowedLogLevels_def)

lemma allowedLogLevels_WRONGLEVEL: "allowedLogLevels ''WRONGLEVEL'' = None"
  by (simp add: allowedLogLevels_def)

lemma IsValidLogLevel_INFO: "IsValidLogLevel lib ''INFO''"
  by (simp add: IsValidLogLevel_def ToUpper_INFO allowedLogLevels_INFO)

lemma IsValidLogLevel_DEBUG: "IsValidLogLevel lib ''DEBUG''"
  by (simp add: IsValidLogLevel_def ToUpper_DEBUG allowedLogLevels_DEBUG)

lemma not_IsValidLogLevel_WRONGLEVEL: "\<not> IsValidLogLevel lib ''WRONGLEVEL''"
  by (simp add: IsValidLogLevel_def ToUpper_WRONGLEVEL allowedLogLevels_WRONGLEVEL)

lemma LevelLessThan_DEBUG_INFO: "LevelLessThan ''DEBUG'' ''INFO''"
  by code_simp

lemma not_LevelLessThan_INFO_INFO: "\<not> LevelLessThan ''INFO'' ''INFO''"
  by code_simp

lemma not_LevelLessThan_INFO_DEBUG: "\<not> LevelLessThan ''INFO'' ''DEBUG''"
  by code_simp

lemma not_LevelLessThan_ERROR_DEBUG: "\<not> LevelLessThan ''ERROR'' ''DEBUG''"
  by code_simp

text \<open>
  The recognized levels are the keys of \<open>allowedLogLevels\<close> and of \<open>orderMap\<close>, and the values
  of \<open>AllLogLevels\<close>. Each of them is its own upper case.
\<close>

lemma AllLogLevels_allowed: "l \<in> set AllLogLevels \<longleftrightarrow> allowedLogLevels l \<noteq> None"
  by (auto simp add: AllLogLevels_def allowedLogLevels_def LogLevelTrace_def LogLevelDebug_def
      LogLevelInfo_def LogLevelWarn_def LogLevelError_def LogLevelFatal_def split: if_splits)

lemma AllLogLevels_orderMap: "l \<in> set AllLogLevels \<longleftrightarrow> map_of orderMap_entries l \<noteq> None"
  by (auto simp add: AllLogLevels_def orderMap_entries_def LogLevelTrace_def LogLevelDebug_def
      LogLevelInfo_def LogLevelWarn_def LogLevelError_def LogLevelFatal_def split: if_splits)

lemma ToUpper_AllLogLevels: "l \<in> set AllLogLevels \<Longrightarrow> ToUpper lib l = l"
proof -
  have "list_all (\<lambda>l. list_all (\<lambda>c. (of_char c :: nat) < 128) l \<and> map ToUpper_byte l = l)
          AllLogLevels"
    by code_simp
  then show "l \<in> set AllLogLevels \<Longrightarrow> ToUpper lib l = l"
    by (simp add: list_all_iff ToUpper_def)
qed

lemma IsValidLogLevel_AllLogLevels: "l \<in> set AllLogLevels \<Longrightarrow> IsValidLogLevel lib l"
  using AllLogLevels_allowed [of l] by (simp add: IsValidLogLevel_def ToUpper_AllLogLevels)

lemma IsValidLogLevel_iff: "IsValidLogLevel lib s \<longleftrightarrow> NormalizeLogLevel lib s \<in> set AllLogLevels"
  by (simp add: IsValidLogLevel_def NormalizeLogLevel_def AllLogLevels_allowed)

lemma orderMap_unrecognized: "l \<notin> set AllLogLevels \<Longrightarrow> orderMap l = 0"
  by (simp add: AllLogLevels_orderMap orderMap_def)

lemma orderMap_Trace: "orderMap LogLevelTrace = 0"
  by (simp add: orderMap_def orderMap_entries_def)

section \<open>The middleware and unrecognized severities\<close>

text \<open>
  Claim C10. \<open>LevelLessThan\<close> reads \<open>orderMap\<close>, where a level that is not one of the six
  recognized ones has the ordinal 0 of \<open>TRACE\<close>. So when the configured minimum level is
  strictly above \<open>TRACE\<close>, a request whose \<open>X-Log-Level\<close> header is missing (the empty string)
  or whose header value \<open>NormalizeLogLevel\<close> does not take to a recognized level goes to the
  next handler, and the limiter is left exactly as it was: no client is tracked and no
  counter moves. This holds whatever the Unicode upper-case mapping is, which decides only
  which header values normalize to a recognized level.
\<close>

theorem Middleware_unrecognized_level_not_limited:
  assumes "levelStr = [] \<or> NormalizeLogLevel lib levelStr \<notin> set AllLogLevels"
    and "LevelLessThan LogLevelTrace (minLevel rl)"
  shows "orderMap (NormalizeLogLevel lib levelStr) = orderMap LogLevelTrace
       \<and> LevelLessThan (NormalizeLogLevel lib levelStr) (minLevel rl)
       \<and> Middleware lib rl levelStr ip now = (Next, rl)"
proof -
  have "[] \<notin> set AllLogLevels" by (simp add: AllLogLevels_allowed allowedLogLevels_def)
  with assms(1) have "NormalizeLogLevel lib levelStr \<notin> set AllLogLevels"
    by (auto simp add: NormalizeLogLevel_empty)
  then have z: "orderMap (NormalizeLogLevel lib levelStr) = 0"
    by (rule orderMap_unrecognized)
  from assms(2) have "0 < orderMap (minLevel rl)"
    by (simp add: LevelLessThan_def orderMap_Trace)
  with z have less: "LevelLessThan (NormalizeLogLevel lib levelStr) (minLevel rl)"
    by (simp add: LevelLessThan_def)
  then have "Middleware lib rl levelStr ip now = (Next, rl)"
    by (simp add: Middleware_def)
  with z less show ?thesis by (simp add: orderMap_Trace)
qed

theorem Middleware_unrecognized_level_not_limited_witness:
  "NormalizeLogLevel sample_library ''WRONGLEVEL'' \<notin> set AllLogLevels
   \<and> LevelLessThan LogLevelTrace LogLevelInfo
   \<and> Middleware sample_library \<lparr>requests = [], maxRequests = 1, maxClients = 10,
        window = 60000000000, minLevel = LogLevelInfo, perLevelLimits = None,
        requestsTotal = 0, blockedTotal = 0, activeClients = 0\<rparr> ''WRONGLEVEL'' ''5.6.7.8'' 1000
     = (Next, \<lparr>requests = [], maxRequests = 1, maxClients = 10, window = 60000000000,
        minLevel = LogLevelInfo, perLevelLimits = None, requestsTotal = 0, blockedTotal = 0,
        activeClients = 0\<rparr>)
   \<and> Middleware sample_library \<lparr>requests = [], maxRequests = 1, maxClients = 10,
        window = 60000000000, minLevel = LogLevelInfo, perLevelLimits = None,
        requestsTotal = 0, blockedTotal = 0, activeClients = 0\<rparr> [] ''5.6.7.8'' 1000
     = (Next, \<lparr>requests = [], maxRequests = 1, maxClients = 10, window = 60000000000,
        minLevel = LogLevelInfo, perLevelLimits = None, requestsTotal = 0, blockedTotal = 0,
        activeClients = 0\<rparr>)"
proof -
  have h1: "NormalizeLogLevel sample_library ''WRONGLEVEL'' \<notin> set AllLogLevels"
    by (simp add: NormalizeLogLevel_WRONGLEVEL AllLogLevels_allowed allowedLogLevels_WRONGLEVEL)
  have h2: "LevelLessThan LogLevelTrace LogLevelInfo" by code_simp
  show ?thesis
    using h1 h2
      Middleware_unrecognized_level_not_limited [of "''WRONGLEVEL''" sample_library
        "\<lparr>requests = [], maxRequests = 1, maxClients = 10, window = 60000000000,
        minLevel = LogLevelInfo, perLevelLimits = None, requestsTotal = 0, blockedTotal = 0,
        activeClients = 0\<rparr>" "''5.6.7.8''" 1000]
      Middleware_unrecognized_level_not_limited [of "[]" sample_library
        "\<lparr>requests = [], maxRequests = 1, maxClients = 10, window = 60000000000,
        minLevel = LogLevelInfo, perLevelLimits = None, requestsTotal = 0, blockedTotal = 0,
        activeClients = 0\<rparr>" "''5.6.7.8''" 1000]
    by simp
qed

text \<open>
  A header value that is not ASCII is recognized when its Unicode upper case is: with a
  library that maps the dotless i to \<open>I\<close>, the header \<open>info\<close> written with a dotless i counts
  as \<open>INFO\<close>, and the request is limited like any \<open>INFO\<close> request.
\<close>

lemma Middleware_dotless_info_limited:
  "Middleware sample_library rl dotless_info ip now = Middleware sample_library rl ''INFO'' ip now"
  by (simp add: Middleware_def NormalizeLogLevel_dotless_info NormalizeLogLevel_INFO)

section \<open>Construction of the rate limiter\<close>

text \<open>
  Claim C3, as the specification states it, fails: the constructor checks the baseline quota
  and the window, and nothing else. With \<open>maxClients = 0\<close> and the other values in range it
  returns a limiter.
\<close>

theorem NewRateLimiterWithLevel_accepts_zero_maxClients:
  "NewRateLimiterWithLevel False 5 1000000000 0 LogLevelInfo None
     = Inr \<lparr>requests = [], maxRequests = 5, maxClients = 0, window = 1000000000,
            minLevel = LogLevelInfo, perLevelLimits = None, requestsTotal = 0,
            blockedTotal = 0, activeClients = 0\<rparr>"
  by (simp add: NewRateLimiterWithLevel_def ValidateMaxRequests_def ValidateWindow_def)

text \<open>
  Claim C3, amended. The constructor returns an error, and no limiter, exactly when the
  baseline quota is outside 1..100000 or the window is not strictly positive; the number of
  tracked clients is not checked. For all other values, and with the limiter's metrics not
  yet registered in the process, it returns a limiter with an empty table that holds the
  five configuration values as given.
\<close>

theorem NewRateLimiterWithLevel_validation:
  "(NewRateLimiterWithLevel registered maxReq win maxCl minLvl perLevel = Inl ErrMaxRequests
      \<longleftrightarrow> maxReq < 1 \<or> 100000 < maxReq)
   \<and> (NewRateLimiterWithLevel registered maxReq win maxCl minLvl perLevel = Inl ErrWindow
      \<longleftrightarrow> 1 \<le> maxReq \<and> maxReq \<le> 100000 \<and> win \<le> 0)
   \<and> (1 \<le> maxReq \<and> maxReq \<le> 100000 \<and> 0 < win \<and> \<not> registered \<longrightarrow>
        NewRateLimiterWithLevel registered maxReq win maxCl minLvl perLevel
          = Inr \<lparr>requests = [], maxRequests = maxReq, maxClients = maxCl, window = win,
                 minLevel = minLvl, perLevelLimits = perLevel, requestsTotal = 0,
                 blockedTotal = 0, activeClients = 0\<rparr>)
   \<and> (maxReq < 1 \<or> 100000 < maxReq \<or> win \<le> 0 \<longrightarrow>
        isl (NewRateLimiterWithLevel registered maxReq win maxCl minLvl perLevel))"
  by (auto simp add: NewRateLimiterWithLevel_def ValidateMaxRequests_def ValidateWindow_def)

theorem NewRateLimiterWithLevel_validation_witness:
  "(1::int) \<le> 5 \<and> (5::int) \<le> 100000 \<and> (0::int) < 1000000000
   \<and> NewRateLimiterWithLevel False 5 1000000000 (- 3) LogLevelInfo None
       = Inr \<lparr>requests = [], maxRequests = 5, maxClients = - 3, window = 1000000000,
              minLevel = LogLevelInfo, perLevelLimits = None, requestsTotal = 0,
              blockedTotal = 0, activeClients = 0\<rparr>
   \<and> NewRateLimiterWithLevel False 0 1000000000 10 LogLevelInfo None = Inl ErrMaxRequests
   \<and> NewRateLimiterWithLevel False 100001 1000000000 10 LogLevelInfo None = Inl ErrMaxRequests
   \<and> NewRateLimiterWithLevel False 5 0 10 LogLevelInfo None = Inl ErrWindow"
  using NewRateLimiterWithLevel_validation [of False 5 1000000000 "- 3" LogLevelInfo None]
    NewRateLimiterWithLevel_validation [of False 0 1000000000 10 LogLevelInfo None]
    NewRateLimiterWithLevel_validation [of False 100001 1000000000 10 LogLevelInfo None]
    NewRateLimiterWithLevel_validation [of False 5 0 10 LogLevelInfo None]
  by simp

section \<open>Pagination bounds of the store's query\<close>

lemma rows_loop_no_fault:
  assumes "no_fault d"
  shows "rows_loop lib clock d i rs
           = Inr (map (\<lambda>(j, r). scan_row lib (clock j) r) (enumerate i rs))"
  using assms by (induction rs arbitrary: i) (simp_all add: no_fault_def)

lemma rows_loop_error:
  "rows_loop lib clock d i rs = Inl e \<Longrightarrow> \<exists>msg. e = ErrStorage msg"
proof (induction rs arbitrary: i)
  case Nil
  then show ?case by simp
next
  case (Cons r rs)
  then show ?case
    by (auto split: if_splits option.splits sum.splits)
qed

lemma QueryLogs_no_fault:
  assumes "ValidatePageLimit page limit = Inr (p, n)"
    and "level = [] \<or> IsValidLogLevel lib level"
    and "no_fault d"
  shows "QueryLogs lib clock d l level page limit
           = Inr (scan_rows lib clock
                    (sql_select (access_path d) level n (wrap64 ((p - 1) * n)) (logs l)))"
proof -
  from assms(3) have q: "Query_error d = None" by (simp add: no_fault_def)
  from assms(2) have lv: "\<not> (level \<noteq> [] \<and> \<not> IsValidLogLevel lib level)" by blast
  show ?thesis
    by (simp add: QueryLogs_def assms(1) lv q Let_def rows_loop_no_fault [OF assms(3)]
        scan_rows_def)
qed

text \<open>
  Claim C9. A limit above 1000 makes \<open>QueryLogs\<close> return the error "limit too large" whatever
  the table holds and whatever the driver would do, so no row is read. A page below 1 is
  replaced by 1 and a limit below 1 by 10, and the call is not rejected for them: with a
  limit of at most 1000 the error "limit too large" is never returned, and when the level
  filter is empty or valid and the driver reports no fault, the call returns the entries of
  the rows that the query selects for the replaced values. In particular limit 1001 is
  rejected and limit 0 is answered as limit 10 is.
\<close>

theorem QueryLogs_page_limit_bounds:
  "(1000 < limit \<longrightarrow> QueryLogs lib clock d l level page limit = Inl ErrLimitTooLarge)
   \<and> (limit \<le> 1000 \<longrightarrow>
        ValidatePageLimit page limit
          = Inr (if page < 1 then 1 else page, if limit < 1 then 10 else limit)
        \<and> QueryLogs lib clock d l level page limit \<noteq> Inl ErrLimitTooLarge)
   \<and> (limit \<le> 1000 \<and> (level = [] \<or> IsValidLogLevel lib level) \<and> no_fault d \<longrightarrow>
        QueryLogs lib clock d l level page limit
          = Inr (scan_rows lib clock
                   (sql_select (access_path d) level (if limit < 1 then 10 else limit)
                      (wrap64 (((if page < 1 then 1 else page) - 1)
                                 * (if limit < 1 then 10 else limit)))
                      (logs l))))
   \<and> (page < 1 \<longrightarrow>
        QueryLogs lib clock d l level page limit = QueryLogs lib clock d l level 1 limit)
   \<and> (limit < 1 \<longrightarrow>
        QueryLogs lib clock d l level page limit = QueryLogs lib clock d l level page 10)
   \<and> QueryLogs lib clock d l level page 1001 = Inl ErrLimitTooLarge
   \<and> QueryLogs lib clock d l level page 0 = QueryLogs lib clock d l level page 10"
proof (intro conjI impI)
  assume "1000 < limit"
  then show "QueryLogs lib clock d l level page limit = Inl ErrLimitTooLarge"
    by (simp add: QueryLogs_def ValidatePageLimit_def Let_def)
next
  assume "limit \<le> 1000"
  then show "ValidatePageLimit page limit
          = Inr (if page < 1 then 1 else page, if limit < 1 then 10 else limit)"
    by (simp add: ValidatePageLimit_def Let_def)
next
  assume le: "limit \<le> 1000"
  show "QueryLogs lib clock d l level page limit \<noteq> Inl ErrLimitTooLarge"
  proof
    assume a: "QueryLogs lib clock d l level page limit = Inl ErrLimitTooLarge"
    from le have v: "ValidatePageLimit page limit
          = Inr (if page < 1 then 1 else page, if limit < 1 then 10 else limit)"
      by (simp add: ValidatePageLimit_def Let_def)
    from a obtain rs where "rows_loop lib clock d 0 rs = Inl ErrLimitTooLarge"
      by (auto simp add: QueryLogs_def v Let_def split: if_splits option.splits)
    from rows_loop_error [OF this] show False by simp
  qed
next
  assume a: "limit \<le> 1000 \<and> (level = [] \<or> IsValidLogLevel lib level) \<and> no_fault d"
  then have v: "ValidatePageLimit page limit
          = Inr (if page < 1 then 1 else page, if limit < 1 then 10 else limit)"
    by (simp add: ValidatePageLimit_def Let_def)
  from a have lv: "level = [] \<or> IsValidLogLevel lib level" and nf: "no_fault d" by simp_all
  show "QueryLogs lib clock d l level page limit
          = Inr (scan_rows lib clock
                   (sql_select (access_path d) level (if limit < 1 then 10 else limit)
                      (wrap64 (((if page < 1 then 1 else page) - 1)
                                 * (if limit < 1 then 10 else limit)))
                      (logs l)))"
    by (rule QueryLogs_no_fault [OF v lv nf])
next
  assume "page < 1"
  then show "QueryLogs lib clock d l level page limit = QueryLogs lib clock d l level 1 limit"
    by (simp add: QueryLogs_def ValidatePageLimit_def Let_def)
next
  assume "limit < 1"
  then show "QueryLogs lib clock d l level page limit = QueryLogs lib clock d l level page 10"
    by (simp add: QueryLogs_def ValidatePageLimit_def Let_def)
next
  show "QueryLogs lib clock d l level page 1001 = Inl ErrLimitTooLarge"
    by (simp add: QueryLogs_def ValidatePageLimit_def Let_def)
next
  show "QueryLogs lib clock d l level page 0 = QueryLogs lib clock d l level page 10"
    by (simp add: QueryLogs_def ValidatePageLimit_def Let_def)
qed

lemma no_fault_rowid_driver: "no_fault rowid_driver"
  by (simp add: no_fault_def rowid_driver_def)

lemma tie_store: "logs (write_all sample_library empty_store tie_entries) = tie_rows"
  by code_simp

lemma tie_select: "sql_select row_id [] 10 0 tie_rows = tie_rows"
  by code_simp

lemma tie_scan:
  "scan_rows sample_library sample_clock tie_rows
     = map (read_back sample_library (sample_time 60)) tie_entries"
  by code_simp

theorem QueryLogs_page_limit_bounds_witness:
  "(1000::int) < 1001 \<and> (0::int) \<le> 1000 \<and> (0::int) < 1 \<and> (- 4::int) < 1
   \<and> no_fault rowid_driver
   \<and> QueryLogs sample_library sample_clock rowid_driver
        (write_all sample_library empty_store tie_entries) [] 1 1001 = Inl ErrLimitTooLarge
   \<and> ValidatePageLimit (- 4) 0 = Inr (1, 10)
   \<and> QueryLogs sample_library sample_clock rowid_driver
        (write_all sample_library empty_store tie_entries) [] (- 4) 0
       = Inr (map (read_back sample_library (sample_time 60)) tie_entries)
   \<and> length tie_entries = 2"
proof -
  have w: "wrap64 0 = 0" by (simp add: wrap64_def)
  have len: "length tie_entries = 2" by (simp add: tie_entries_def)
  have ap: "access_path rowid_driver = row_id" by (simp add: rowid_driver_def)
  show ?thesis
    using QueryLogs_page_limit_bounds [of 1001 sample_library sample_clock rowid_driver
        "write_all sample_library empty_store tie_entries" "[]" 1]
      QueryLogs_page_limit_bounds [of 0 sample_library sample_clock rowid_driver
        "write_all sample_library empty_store tie_entries" "[]" "- 4"]
      no_fault_rowid_driver len
    by (simp add: tie_store tie_select tie_scan w ap)
qed

section \<open>Appending to the store\<close>

text \<open>
  Claim C6. \<open>Write\<close> returns an error exactly when the normalized level is not a recognized
  one, or the insert is reached and the driver reports a fault. A recognized level below the
  store's minimum gives success and leaves the store as it was. A context that cannot be
  marshalled is stored as the empty JSON document \<open>{}\<close>, and the row is inserted all the same.
\<close>

theorem Write_error_cases:
  "(fst (Write lib l entry fault) \<noteq> None \<longleftrightarrow>
      \<not> IsValidLogLevel lib (NormalizeLogLevel lib (Level entry))
      \<or> (IsValidLogLevel lib (NormalizeLogLevel lib (Level entry))
          \<and> \<not> LevelLessThan (NormalizeLogLevel lib (Level entry)) (logMinLevel l)
          \<and> fault \<noteq> None))
   \<and> (\<not> IsValidLogLevel lib (NormalizeLogLevel lib (Level entry))
        \<longrightarrow> fst (Write lib l entry fault) = Some (ErrInvalidLevel (Level entry))
            \<and> logs (snd (Write lib l entry fault)) = logs l)
   \<and> (IsValidLogLevel lib (NormalizeLogLevel lib (Level entry))
        \<and> LevelLessThan (NormalizeLogLevel lib (Level entry)) (logMinLevel l)
        \<longrightarrow> Write lib l entry fault = (None, l))
   \<and> (IsValidLogLevel lib (NormalizeLogLevel lib (Level entry))
        \<and> \<not> LevelLessThan (NormalizeLogLevel lib (Level entry)) (logMinLevel l)
        \<and> fault = None
        \<longrightarrow> fst (Write lib l entry fault) = None
            \<and> logs (snd (Write lib l entry fault))
                = logs l @ [stored_row lib
                              (max (sqlite_sequence l) (fold max (map row_id (logs l)) 0) + 1)
                              entry])
   \<and> (IsValidLogLevel lib (NormalizeLogLevel lib (Level entry))
        \<and> \<not> LevelLessThan (NormalizeLogLevel lib (Level entry)) (logMinLevel l)
        \<and> Context entry = BadContext err \<and> fault = None
        \<longrightarrow> fst (Write lib l entry fault) = None
            \<and> logs (snd (Write lib l entry fault))
                = logs l @ [\<lparr>row_id = max (sqlite_sequence l) (fold max (map row_id (logs l)) 0) + 1,
                              row_level = NormalizeLogLevel lib (Level entry),
                              row_message = Message entry,
                              row_timestamp = time_Format lib (Timestamp entry),
                              row_context = ''{}''\<rparr>])
   \<and> (\<forall>e. fault = Some e
        \<and> IsValidLogLevel lib (NormalizeLogLevel lib (Level entry))
        \<and> \<not> LevelLessThan (NormalizeLogLevel lib (Level entry)) (logMinLevel l)
        \<longrightarrow> fst (Write lib l entry fault) = Some (ErrStorage e)
            \<and> logs (snd (Write lib l entry fault)) = logs l)"
  by (cases fault)
    (simp_all add: Write_def Let_def sql_insert_def MarshalContext_def stored_row_def)

lemma IsValidLogLevel_Normalize_info: "IsValidLogLevel lib (NormalizeLogLevel lib ''info'')"
  by (simp add: NormalizeLogLevel_info IsValidLogLevel_INFO)

lemma IsValidLogLevel_Normalize_debug: "IsValidLogLevel lib (NormalizeLogLevel lib ''debug'')"
  by (simp add: NormalizeLogLevel_debug IsValidLogLevel_DEBUG)

lemma not_IsValidLogLevel_Normalize_WRONGLEVEL:
  "\<not> IsValidLogLevel lib (NormalizeLogLevel lib ''WRONGLEVEL'')"
  by (simp add: NormalizeLogLevel_WRONGLEVEL not_IsValidLogLevel_WRONGLEVEL)

lemma sample_Format_0: "time_Format sample_library (sample_time 0) = ''2025-08-06T14:12:00Z''"
  by code_simp

theorem Write_error_cases_witness:
  "IsValidLogLevel sample_library (NormalizeLogLevel sample_library ''info'')
   \<and> \<not> LevelLessThan (NormalizeLogLevel sample_library ''info'') ''INFO''
   \<and> fst (Write sample_library empty_store
               \<lparr>Level = ''info'', Message = ''m'', Timestamp = sample_time 0,
                Context = BadContext ''json: unsupported type: func()''\<rparr> None) = None
   \<and> logs (snd (Write sample_library empty_store
               \<lparr>Level = ''info'', Message = ''m'', Timestamp = sample_time 0,
                Context = BadContext ''json: unsupported type: func()''\<rparr> None))
       = [\<lparr>row_id = 1, row_level = ''INFO'', row_message = ''m'',
           row_timestamp = ''2025-08-06T14:12:00Z'', row_context = ''{}''\<rparr>]
   \<and> IsValidLogLevel sample_library (NormalizeLogLevel sample_library ''debug'')
   \<and> LevelLessThan (NormalizeLogLevel sample_library ''debug'') ''INFO''
   \<and> Write sample_library empty_store
               \<lparr>Level = ''debug'', Message = ''m'', Timestamp = sample_time 0,
                Context = NilContext\<rparr> (Some ''disk full'')
       = (None, empty_store)
   \<and> fst (Write sample_library empty_store
               \<lparr>Level = ''WRONGLEVEL'', Message = ''m'', Timestamp = sample_time 0,
                Context = NilContext\<rparr> None) = Some (ErrInvalidLevel ''WRONGLEVEL'')
   \<and> fst (Write sample_library empty_store
               \<lparr>Level = ''info'', Message = ''m'', Timestamp = sample_time 0,
                Context = NilContext\<rparr> (Some ''disk full'')) = Some (ErrStorage ''disk full'')
   \<and> IsValidLogLevel sample_library (NormalizeLogLevel sample_library dotless_info)
   \<and> logs (snd (Write sample_library empty_store
               \<lparr>Level = dotless_info, Message = ''m'', Timestamp = sample_time 0,
                Context = NilContext\<rparr> None))
       = [\<lparr>row_id = 1, row_level = ''INFO'', row_message = ''m'',
           row_timestamp = ''2025-08-06T14:12:00Z'', row_context = []\<rparr>]"
proof -
  have e: "logs empty_store = []" "sqlite_sequence empty_store = 0"
    "logMinLevel empty_store = ''INFO''"
    by (simp_all add: empty_store_def)
  have d: "IsValidLogLevel sample_library (NormalizeLogLevel sample_library dotless_info)"
    by (simp add: NormalizeLogLevel_dotless_info IsValidLogLevel_INFO)
  show ?thesis
    using
      Write_error_cases [of sample_library empty_store
               "\<lparr>Level = ''info'', Message = ''m'', Timestamp = sample_time 0,
                Context = BadContext ''json: unsupported type: func()''\<rparr>" None
               "''json: unsupported type: func()''"]
      Write_error_cases [of sample_library empty_store
               "\<lparr>Level = ''debug'', Message = ''m'', Timestamp = sample_time 0,
                Context = NilContext\<rparr>" "Some ''disk full''" "[]"]
      Write_error_cases [of sample_library empty_store
               "\<lparr>Level = ''WRONGLEVEL'', Message = ''m'', Timestamp = sample_time 0,
                Context = NilContext\<rparr>" None "[]"]
      Write_error_cases [of sample_library empty_store
               "\<lparr>Level = ''info'', Message = ''m'', Timestamp = sample_time 0,
                Context = NilContext\<rparr>" "Some ''disk full''" "[]"]
      Write_error_cases [of sample_library empty_store
               "\<lparr>Level = dotless_info, Message = ''m'', Timestamp = sample_time 0,
                Context = NilContext\<rparr>" None "[]"]
      d
    by (simp add: NormalizeLogLevel_info NormalizeLogLevel_debug NormalizeLogLevel_WRONGLEVEL
        NormalizeLogLevel_dotless_info IsValidLogLevel_INFO
        IsValidLogLevel_DEBUG not_IsValidLogLevel_WRONGLEVEL LevelLessThan_DEBUG_INFO
        not_LevelLessThan_INFO_INFO e stored_row_def MarshalContext_def sample_Format_0)
qed

section \<open>The client table\<close>

lemma map_of_map_replace:
  "map_of (map (\<lambda>(k', v'). if k' = k then (k', v) else (k', v')) m) k'
     = (if k' = k then (if k \<in> fst ` set m then Some v else None) else map_of m k')"
  by (induction m) (auto simp add: rev_image_eqI)

lemma map_of_map_store_same: "map_of (map_store k v m) k = Some v"
proof (cases "k \<in> fst ` set m")
  case True
  then show ?thesis by (simp add: map_store_def map_of_map_replace)
next
  case False
  then have "map_of m k = None" by (simp add: map_of_eq_None_iff)
  with False show ?thesis by (simp add: map_store_def map_add_def)
qed

lemma map_of_map_store_other: "k' \<noteq> k \<Longrightarrow> map_of (map_store k v m) k' = map_of m k'"
  by (cases "k \<in> fst ` set m")
     (simp_all add: map_store_def map_of_map_replace map_add_def split: option.split)

lemma map_of_present_in_dom: "map_of m k = Some c \<Longrightarrow> k \<in> fst ` set m"
  using map_of_eq_None_iff [of m k] by auto

lemma map_store_present:
  "map_of m k = Some c \<Longrightarrow> length (map_store k v m) = length m"
  by (simp add: map_store_def map_of_present_in_dom)

lemma map_store_absent:
  "map_of m k = None \<Longrightarrow> map_store k v m = m @ [(k, v)]"
  by (simp add: map_store_def map_of_eq_None_iff)

lemma allow_present_no_eviction:
  assumes "map_of (requests rl) ip = Some c"
  shows "allow rl ip maxReq now =
     (if Sub now (firstSeen c) > window rl then
        (let rs = map_store ip \<lparr>count = 1, firstSeen = now\<rparr> (requests rl)
         in ((True, 0), rl\<lparr>requests := rs, activeClients := int (length rs),
                           requestsTotal := requestsTotal rl + 1\<rparr>))
      else if count c \<ge> maxReq then
        ((False, wrap64 (window rl - Sub now (firstSeen c))),
         rl\<lparr>blockedTotal := blockedTotal rl + 1\<rparr>)
      else
        ((True, 0),
         rl\<lparr>requests := map_store ip (c\<lparr>count := count c + 1\<rparr>) (requests rl),
            requestsTotal := requestsTotal rl + 1\<rparr>))"
  using assms by (simp add: allow_def exists_def Let_def)

section \<open>Expired windows\<close>

text \<open>
  Claim C8. When the table holds a window for the client and \<open>now.Sub(firstSeen)\<close> exceeds
  the window duration, \<open>allow\<close> admits the call and the client's entry becomes
  \<open>count = 1\<close>, \<open>firstSeen = now\<close>; the other entries and the size of the table stay as they
  are. \<open>Middleware\<close> reaches \<open>allow\<close> for every request whose level is not below the minimum
  level, and then passes the request on.
\<close>

theorem allow_expired_window_resets:
  assumes "map_of (requests rl) ip = Some c"
    and "window rl < Sub now (firstSeen c)"
  shows "fst (allow rl ip maxReq now) = (True, 0)
       \<and> map_of (requests (snd (allow rl ip maxReq now))) ip = Some \<lparr>count = 1, firstSeen = now\<rparr>
       \<and> (\<forall>k. k \<noteq> ip \<longrightarrow>
             map_of (requests (snd (allow rl ip maxReq now))) k = map_of (requests rl) k)
       \<and> length (requests (snd (allow rl ip maxReq now))) = length (requests rl)
       \<and> (\<not> LevelLessThan (NormalizeLogLevel lib levelStr) (minLevel rl) \<longrightarrow>
             fst (Middleware lib rl levelStr ip now) = Next
             \<and> map_of (requests (snd (Middleware lib rl levelStr ip now))) ip
                 = Some \<lparr>count = 1, firstSeen = now\<rparr>)"
  using assms
  by (simp add: allow_present_no_eviction Middleware_def Let_def map_of_map_store_same
      map_of_map_store_other map_store_present)

theorem allow_expired_window_resets_witness:
  "map_of [(''1.2.3.4'', \<lparr>count = 1, firstSeen = 1000\<rparr>)] ''1.2.3.4''
      = Some \<lparr>count = 1, firstSeen = 1000\<rparr>
   \<and> (100000000::int) < Sub 120001000 1000
   \<and> \<not> LevelLessThan (NormalizeLogLevel sample_library ''info'') ''INFO''
   \<and> fst (allow \<lparr>requests = [(''1.2.3.4'', \<lparr>count = 1, firstSeen = 1000\<rparr>)], maxRequests = 1,
          maxClients = 10, window = 100000000, minLevel = ''INFO'', perLevelLimits = None,
          requestsTotal = 1, blockedTotal = 1, activeClients = 1\<rparr> ''1.2.3.4'' 1 120001000)
       = (True, 0)
   \<and> requests (snd (Middleware sample_library \<lparr>requests = [(''1.2.3.4'', \<lparr>count = 1, firstSeen = 1000\<rparr>)],
          maxRequests = 1, maxClients = 10, window = 100000000, minLevel = ''INFO'',
          perLevelLimits = None, requestsTotal = 1, blockedTotal = 1, activeClients = 1\<rparr>
          ''info'' ''1.2.3.4'' 120001000))
       = [(''1.2.3.4'', \<lparr>count = 1, firstSeen = 120001000\<rparr>)]"
proof -
  have h1: "map_of (requests \<lparr>requests = [(''1.2.3.4'', \<lparr>count = 1, firstSeen = 1000\<rparr>)],
          maxRequests = 1, maxClients = 10, window = 100000000, minLevel = ''INFO'',
          perLevelLimits = None, requestsTotal = 1, blockedTotal = 1, activeClients = 1\<rparr>)
          ''1.2.3.4'' = Some \<lparr>count = 1, firstSeen = 1000\<rparr>"
    by simp
  have h2: "window \<lparr>requests = [(''1.2.3.4'', \<lparr>count = 1, firstSeen = 1000\<rparr>)],
          maxRequests = 1, maxClients = 10, window = 100000000, minLevel = ''INFO'',
          perLevelLimits = None, requestsTotal = 1, blockedTotal = 1, activeClients = 1\<rparr>
          < Sub 120001000 (firstSeen \<lparr>count = 1, firstSeen = 1000\<rparr>)"
    by (simp add: Sub_def maxDuration_def minDuration_def)
  have h3: "\<not> LevelLessThan (NormalizeLogLevel sample_library ''info'') ''INFO''"
    by (simp add: NormalizeLogLevel_info not_LevelLessThan_INFO_INFO)
  show ?thesis
    using h3 allow_expired_window_resets [OF h1 h2, of 1 sample_library "''info''"]
    by (simp add: Sub_def maxDuration_def minDuration_def Middleware_def Let_def
        allow_def exists_def effective_maxReq_def map_store_def)
qed

section \<open>Quota within one window\<close>

lemma evictOldest_config:
  "window (evictOldest rl) = window rl" "minLevel (evictOldest rl) = minLevel rl"
  "perLevelLimits (evictOldest rl) = perLevelLimits rl"
  "maxRequests (evictOldest rl) = maxRequests rl" "maxClients (evictOldest rl) = maxClients rl"
  by (simp_all add: evictOldest_def)

lemma allow_config:
  "window (snd (allow rl ip maxReq now)) = window rl"
  "minLevel (snd (allow rl ip maxReq now)) = minLevel rl"
  "perLevelLimits (snd (allow rl ip maxReq now)) = perLevelLimits rl"
  "maxRequests (snd (allow rl ip maxReq now)) = maxRequests rl"
  "maxClients (snd (allow rl ip maxReq now)) = maxClients rl"
  by (simp_all add: allow_def Let_def evictOldest_config split: option.split)

lemma effective_maxReq_allow:
  "effective_maxReq (snd (allow rl ip maxReq now)) level = effective_maxReq rl level"
  by (simp add: effective_maxReq_def allow_config split: option.split)

lemma map_of_map_delete_absent:
  "map_of m k = None \<Longrightarrow> map_of (map_delete k' m) k = None"
  by (auto simp add: map_delete_def map_of_eq_None_iff)

lemma evictOldest_absent:
  "map_of (requests rl) ip = None \<Longrightarrow> map_of (requests (evictOldest rl)) ip = None"
  by (simp add: evictOldest_def map_of_map_delete_absent)

lemma allow_absent:
  assumes "map_of (requests rl) ip = None"
  shows "fst (allow rl ip maxReq now) = (True, 0)"
    and "map_of (requests (snd (allow rl ip maxReq now))) ip = Some \<lparr>count = 1, firstSeen = now\<rparr>"
  using assms
  by (simp_all add: allow_def Let_def exists_def evictOldest_absent map_of_map_store_same)

lemma allow_opens_window:
  assumes "map_of (requests rl) ip = None
           \<or> (\<exists>c. map_of (requests rl) ip = Some c \<and> window rl < Sub now (firstSeen c))"
  shows "fst (allow rl ip maxReq now) = (True, 0)
       \<and> map_of (requests (snd (allow rl ip maxReq now))) ip = Some \<lparr>count = 1, firstSeen = now\<rparr>"
  using assms
proof
  assume "map_of (requests rl) ip = None"
  then show ?thesis by (simp add: allow_absent)
next
  assume "\<exists>c. map_of (requests rl) ip = Some c \<and> window rl < Sub now (firstSeen c)"
  then obtain c where "map_of (requests rl) ip = Some c" "window rl < Sub now (firstSeen c)"
    by blast
  then show ?thesis
    by (simp add: allow_present_no_eviction Let_def map_of_map_store_same)
qed

lemma Middleware_limited:
  assumes "\<not> LevelLessThan (NormalizeLogLevel lib levelStr) (minLevel rl)"
  shows "(fst (Middleware lib rl levelStr ip now) = Next)
           = fst (fst (allow rl ip (effective_maxReq rl (NormalizeLogLevel lib levelStr)) now))"
    and "snd (Middleware lib rl levelStr ip now)
           = snd (allow rl ip (effective_maxReq rl (NormalizeLogLevel lib levelStr)) now)"
  using assms by (simp_all add: Middleware_def Let_def)

text \<open>
  Claim C4, as the specification states it, fails for an effective quota of zero, which a
  per-level override can set: the first request of a client that is not tracked opens a
  window and is admitted whatever the quota is.
\<close>

theorem serve_zero_quota_first_request_admitted:
  "\<forall>lib.
     effective_maxReq \<lparr>requests = [], maxRequests = 5, maxClients = 10, window = 60000000000,
        minLevel = ''DEBUG'', perLevelLimits = Some (map_of [(''ERROR'', 0)]),
        requestsTotal = 0, blockedTotal = 0, activeClients = 0\<rparr> (NormalizeLogLevel lib ''ERROR'') = 0
     \<and> fst (serve lib \<lparr>requests = [], maxRequests = 5, maxClients = 10, window = 60000000000,
        minLevel = ''DEBUG'', perLevelLimits = Some (map_of [(''ERROR'', 0)]),
        requestsTotal = 0, blockedTotal = 0, activeClients = 0\<rparr> ''ERROR'' ''9.9.9.9'' [1000])
      = [Next]"
  by (simp add: NormalizeLogLevel_ERROR not_LevelLessThan_ERROR_DEBUG effective_maxReq_def
      Middleware_def Let_def allow_def exists_def map_store_def)

lemma effective_maxReq_keeps:
  "keeps_window ip a b \<Longrightarrow> effective_maxReq b level = effective_maxReq a level"
  by (simp add: keeps_window_def effective_maxReq_def split: option.split)

lemma responses_within_window:
  assumes "map_of (requests rl) ip = Some \<lparr>count = c, firstSeen = t0\<rparr>"
    and "\<not> LevelLessThan (NormalizeLogLevel lib levelStr) (minLevel rl)"
    and "effective_maxReq rl (NormalizeLogLevel lib levelStr) = q"
    and "c \<le> q"
    and "in_sequence lib levelStr ip ((rl, t) # rest)"
    and "Sub t t0 \<le> window rl"
    and "list_all (\<lambda>x. Sub (snd x) t0 \<le> window rl) rest"
    and "length rest = nat (q - c)"
  shows "map (\<lambda>r. r = Next) (responses lib levelStr ip ((rl, t) # rest))
           = replicate (nat (q - c)) True @ [False]"
  using assms
proof (induction rest arbitrary: rl t c)
  case Nil
  then have cq: "c = q" by simp
  have "\<not> fst (fst (allow rl ip q t))"
    using Nil.prems(1) Nil.prems(6) cq by (simp add: allow_present_no_eviction)
  then have "fst (Middleware lib rl levelStr ip t) \<noteq> Next"
    using Middleware_limited(1) [OF Nil.prems(2)] Nil.prems(3) by simp
  then show ?case using cq by (simp add: responses_def)
next
  case (Cons y rest)
  let ?a = "allow rl ip q t"
  from Cons.prems(8) have lt: "c < q" by simp
  have within: "\<not> window rl < Sub t t0" using Cons.prems(6) by simp
  have mw_fst: "(fst (Middleware lib rl levelStr ip t) = Next) = fst (fst ?a)"
    and mw_snd: "snd (Middleware lib rl levelStr ip t) = snd ?a"
    using Middleware_limited [OF Cons.prems(2)] Cons.prems(3) by simp_all
  have a_fst: "fst (fst ?a)"
    using Cons.prems(1) within lt by (simp add: allow_present_no_eviction)
  have a_map: "map_of (requests (snd ?a)) ip = Some \<lparr>count = c + 1, firstSeen = t0\<rparr>"
    using Cons.prems(1) within lt
    by (simp add: allow_present_no_eviction map_of_map_store_same)
  from Cons.prems(5) have keep: "keeps_window ip (snd ?a) (fst y)"
    and seq: "in_sequence lib levelStr ip (y # rest)"
    by (simp_all add: mw_snd)
  have y: "y = (fst y, snd y)" by simp
  have m: "map_of (requests (fst y)) ip = Some \<lparr>count = c + 1, firstSeen = t0\<rparr>"
    using keep a_map by (simp add: keeps_window_def)
  have w: "window (fst y) = window rl"
    using keep by (simp add: keeps_window_def allow_config)
  have lvl: "\<not> LevelLessThan (NormalizeLogLevel lib levelStr) (minLevel (fst y))"
    using keep Cons.prems(2) by (simp add: keeps_window_def allow_config)
  have eff: "effective_maxReq (fst y) (NormalizeLogLevel lib levelStr) = q"
    using effective_maxReq_keeps [OF keep] Cons.prems(3) by (simp add: effective_maxReq_allow)
  have le: "c + 1 \<le> q" using lt by simp
  have seq': "in_sequence lib levelStr ip ((fst y, snd y) # rest)" using seq by simp
  have ty: "Sub (snd y) t0 \<le> window (fst y)" using Cons.prems(7) w by simp
  have rest: "list_all (\<lambda>x. Sub (snd x) t0 \<le> window (fst y)) rest"
    using Cons.prems(7) w by simp
  have len: "length rest = nat (q - (c + 1))" using Cons.prems(8) lt by simp
  have ih: "map (\<lambda>r. r = Next) (responses lib levelStr ip ((fst y, snd y) # rest))
              = replicate (nat (q - (c + 1))) True @ [False]"
    by (rule Cons.IH [OF m lvl eff le seq' ty rest len])
  have "nat (q - c) = Suc (nat (q - (c + 1)))" using lt by simp
  then show ?case
    using ih a_fst mw_fst by (simp add: responses_def)
qed

text \<open>
  Claim C4, amended to effective quotas \<open>q \<ge> 1\<close>. Let a client's request at \<open>t0\<close> open a
  window (the client is not tracked, or its window has expired), and let \<open>q\<close> further
  requests of that client follow, each finding the client's window as the previous one left
  it and each made while \<open>now.Sub(t0)\<close> does not exceed the window duration; all requests
  carry a level that is not below the minimum and has effective quota \<open>q\<close>. Then the first
  \<open>q\<close> of these \<open>q + 1\<close> requests are passed on, and the last one, and only that one, is
  denied.
\<close>

theorem quota_plus_one_requests:
  assumes "1 \<le> q"
    and "effective_maxReq rl (NormalizeLogLevel lib levelStr) = q"
    and "\<not> LevelLessThan (NormalizeLogLevel lib levelStr) (minLevel rl)"
    and "map_of (requests rl) ip = None
         \<or> (\<exists>c. map_of (requests rl) ip = Some c \<and> window rl < Sub t0 (firstSeen c))"
    and "in_sequence lib levelStr ip ((rl, t0) # rest)"
    and "length rest = nat q"
    and "list_all (\<lambda>x. Sub (snd x) t0 \<le> window rl) rest"
  shows "map (\<lambda>r. r = Next) (responses lib levelStr ip ((rl, t0) # rest))
           = replicate (nat q) True @ [False]"
proof -
  let ?a = "allow rl ip q t0"
  have mw_fst: "(fst (Middleware lib rl levelStr ip t0) = Next) = fst (fst ?a)"
    and mw_snd: "snd (Middleware lib rl levelStr ip t0) = snd ?a"
    using Middleware_limited [OF assms(3)] assms(2) by simp_all
  from allow_opens_window [OF assms(4)]
  have a_fst: "fst (fst ?a)"
    and a_map: "map_of (requests (snd ?a)) ip = Some \<lparr>count = 1, firstSeen = t0\<rparr>"
    by simp_all
  from assms(1) assms(6) obtain y rest' where r: "rest = y # rest'"
    by (cases rest) simp_all
  from assms(5) have keep: "keeps_window ip (snd ?a) (fst y)"
    and seq: "in_sequence lib levelStr ip ((fst y, snd y) # rest')"
    by (simp_all add: r mw_snd)
  have m: "map_of (requests (fst y)) ip = Some \<lparr>count = 1, firstSeen = t0\<rparr>"
    using keep a_map by (simp add: keeps_window_def)
  have w: "window (fst y) = window rl"
    using keep by (simp add: keeps_window_def allow_config)
  have lvl: "\<not> LevelLessThan (NormalizeLogLevel lib levelStr) (minLevel (fst y))"
    using keep assms(3) by (simp add: keeps_window_def allow_config)
  have eff: "effective_maxReq (fst y) (NormalizeLogLevel lib levelStr) = q"
    using effective_maxReq_keeps [OF keep] assms(2) by (simp add: effective_maxReq_allow)
  have ty: "Sub (snd y) t0 \<le> window (fst y)" using assms(7) w by (simp add: r)
  have rest: "list_all (\<lambda>x. Sub (snd x) t0 \<le> window (fst y)) rest'"
    using assms(7) w by (simp add: r)
  have len: "length rest' = nat (q - 1)" using assms(6) by (simp add: r)
  have tail: "map (\<lambda>r. r = Next) (responses lib levelStr ip ((fst y, snd y) # rest'))
                = replicate (nat (q - 1)) True @ [False]"
    by (rule responses_within_window [OF m lvl eff assms(1) seq ty rest len])
  have "nat q = Suc (nat (q - 1))" using assms(1) by simp
  then show ?thesis
    using tail a_fst mw_fst by (simp add: responses_def r)
qed

lemma quota_steps_other_client:
  "snd (Middleware sample_library (snd (Middleware sample_library quota_limiter ''info'' ''C'' 1000)) ''info'' ''D'' 1000)
     = fst (hd quota_steps)"
  by (simp add: quota_steps_def quota_limiter_def NormalizeLogLevel_info
      not_LevelLessThan_INFO_INFO Middleware_def Let_def allow_def exists_def
      effective_maxReq_def map_store_def)

lemma Seconds_almost_one: "int_of_float (Seconds 999999998) = 0"
  by code_simp

theorem quota_plus_one_requests_witness:
  "(1::int) \<le> 2
   \<and> effective_maxReq quota_limiter (NormalizeLogLevel sample_library ''info'') = 2
   \<and> \<not> LevelLessThan (NormalizeLogLevel sample_library ''info'') (minLevel quota_limiter)
   \<and> map_of (requests quota_limiter) ''C'' = None
   \<and> in_sequence sample_library ''info'' ''C'' ((quota_limiter, 1000) # quota_steps)
   \<and> length quota_steps = nat 2
   \<and> list_all (\<lambda>x. Sub (snd x) 1000 \<le> window quota_limiter) quota_steps
   \<and> map (\<lambda>r. r = Next) (responses sample_library ''info'' ''C'' ((quota_limiter, 1000) # quota_steps))
       = replicate (nat 2) True @ [False]
   \<and> responses sample_library ''info'' ''C'' ((quota_limiter, 1000) # quota_steps)
       = [Next, Next, TooManyRequests 0]"
proof -
  have h1: "(1::int) \<le> 2" by simp
  have h2: "effective_maxReq quota_limiter (NormalizeLogLevel sample_library ''info'') = 2"
    by (simp add: effective_maxReq_def quota_limiter_def)
  have h3: "\<not> LevelLessThan (NormalizeLogLevel sample_library ''info'') (minLevel quota_limiter)"
    by (simp add: quota_limiter_def NormalizeLogLevel_info not_LevelLessThan_INFO_INFO)
  have h4': "map_of (requests quota_limiter) ''C'' = None" by (simp add: quota_limiter_def)
  then have h4: "map_of (requests quota_limiter) ''C'' = None
      \<or> (\<exists>c. map_of (requests quota_limiter) ''C'' = Some c
            \<and> window quota_limiter < Sub 1000 (firstSeen c))"
    by simp
  have s: "Sub 1001 1000 = 1" "Sub 1002 1000 = 2"
    by (simp_all add: Sub_def maxDuration_def minDuration_def)
  have w: "wrap64 999999998 = 999999998" by (simp add: wrap64_def)
  have h5: "in_sequence sample_library ''info'' ''C'' ((quota_limiter, 1000) # quota_steps)"
    by (simp add: quota_steps_def quota_limiter_def NormalizeLogLevel_info
        not_LevelLessThan_INFO_INFO Middleware_def Let_def allow_def exists_def
        effective_maxReq_def map_store_def keeps_window_def s)
  have h6: "length quota_steps = nat 2" by (simp add: quota_steps_def)
  have h7: "list_all (\<lambda>x. Sub (snd x) 1000 \<le> window quota_limiter) quota_steps"
    by (simp add: quota_steps_def quota_limiter_def s)
  have r: "responses sample_library ''info'' ''C'' ((quota_limiter, 1000) # quota_steps)
       = [Next, Next, TooManyRequests 0]"
    by (simp add: responses_def quota_steps_def quota_limiter_def NormalizeLogLevel_info
        not_LevelLessThan_INFO_INFO Middleware_def Let_def allow_def exists_def
        effective_maxReq_def map_store_def s w Seconds_almost_one)
  from quota_plus_one_requests [OF h1 h2 h3 h4 h5 h6 h7] h1 h2 h3 h4' h5 h6 h7 r
  show ?thesis by simp
qed

section \<open>Eviction at capacity\<close>

lemma evictOldest_at_capacity:
  "int (length (requests rl)) \<le> maxClients rl \<Longrightarrow> evictOldest rl = rl"
  by (simp add: evictOldest_def)

lemma allow_at_capacity_no_eviction:
  assumes "map_of (requests rl) ip = None"
    and "int (length (requests rl)) = maxClients rl"
  shows "requests (snd (allow rl ip maxReq now))
           = requests rl @ [(ip, \<lparr>count = 1, firstSeen = now\<rparr>)]"
    and "int (length (requests (snd (allow rl ip maxReq now)))) = maxClients rl + 1"
  using assms
  by (simp_all add: allow_def exists_def Let_def evictOldest_at_capacity map_store_absent)

text \<open>
  Claim C1 on the code. \<open>allow\<close> calls \<open>evictOldest\<close> when the table holds \<open>maxClients\<close> entries
  or more, but \<open>evictOldest\<close> returns at once unless the table holds more than \<open>maxClients\<close>.
  With \<open>maxClients = 2\<close>, three distinct clients that issue one request each are all three
  tracked afterwards: nothing is evicted.
\<close>

theorem allow_three_clients_maxClients_two:
  "NewRateLimiterWithLevel False 5 60000000000 2 ''INFO'' None
     = Inr \<lparr>requests = [], maxRequests = 5, maxClients = 2, window = 60000000000,
            minLevel = ''INFO'', perLevelLimits = None, requestsTotal = 0, blockedTotal = 0,
            activeClients = 0\<rparr>
   \<and> requests (snd (allow (snd (allow (snd (allow
        \<lparr>requests = [], maxRequests = 5, maxClients = 2, window = 60000000000,
         minLevel = ''INFO'', perLevelLimits = None, requestsTotal = 0, blockedTotal = 0,
         activeClients = 0\<rparr>
        ''1.1.1.1'' 5 1000)) ''2.2.2.2'' 5 2000)) ''3.3.3.3'' 5 3000))
     = [(''1.1.1.1'', \<lparr>count = 1, firstSeen = 1000\<rparr>),
        (''2.2.2.2'', \<lparr>count = 1, firstSeen = 2000\<rparr>),
        (''3.3.3.3'', \<lparr>count = 1, firstSeen = 3000\<rparr>)]"
  by (simp add: NewRateLimiterWithLevel_def ValidateMaxRequests_def ValidateWindow_def
      allow_def exists_def Let_def evictOldest_def map_store_def)
text \<open>
  What \<open>evictOldest\<close> does once the table holds more than \<open>maxClients\<close> entries: the scan ends on
  an entry whose \<open>firstSeen\<close> is the least of the table (no \<open>firstSeen\<close> being the zero time,
  as all of them are readings of the clock), and that entry is deleted.
\<close>

lemma fold_oldest_step_acc:
  assumes "\<forall>e\<in>set m. firstSeen (snd e) \<noteq> 0" and "snd acc \<noteq> 0"
  shows "(fold oldest_step m acc = acc
          \<or> fold oldest_step m acc \<in> (\<lambda>e. (fst e, firstSeen (snd e))) ` set m)
       \<and> snd (fold oldest_step m acc) \<le> snd acc
       \<and> (\<forall>e\<in>set m. snd (fold oldest_step m acc) \<le> firstSeen (snd e))"
  using assms
proof (induction m arbitrary: acc)
  case Nil
  then show ?case by simp
next
  case (Cons e m)
  let ?acc = "oldest_step e acc"
  have nz: "snd ?acc \<noteq> 0"
    using Cons.prems by (simp add: oldest_step_def)
  have le: "snd ?acc \<le> snd acc" "snd ?acc \<le> firstSeen (snd e)"
    using Cons.prems(2) by (simp_all add: oldest_step_def IsZero_def Before_def)
  have step: "?acc = acc \<or> ?acc = (fst e, firstSeen (snd e))"
    by (simp add: oldest_step_def)
  from Cons.prems(1) have m: "\<forall>e\<in>set m. firstSeen (snd e) \<noteq> 0" by simp
  note ih = Cons.IH [OF m nz]
  from ih step have "fold oldest_step m ?acc = acc
      \<or> fold oldest_step m ?acc \<in> (\<lambda>e. (fst e, firstSeen (snd e))) ` set (e # m)"
    by auto
  moreover from ih le have "snd (fold oldest_step m ?acc) \<le> snd acc"
    and "\<forall>x\<in>set (e # m). snd (fold oldest_step m ?acc) \<le> firstSeen (snd x)"
    by auto
  ultimately show ?case by simp
qed

lemma fold_oldest_step_oldest:
  assumes "m \<noteq> []" and "\<forall>e\<in>set m. firstSeen (snd e) \<noteq> 0"
  shows "fold oldest_step m ([], 0) \<in> (\<lambda>e. (fst e, firstSeen (snd e))) ` set m
       \<and> (\<forall>e\<in>set m. snd (fold oldest_step m ([], 0)) \<le> firstSeen (snd e))"
proof -
  from assms(1) obtain e m' where m: "m = e # m'" by (cases m) auto
  let ?acc = "(fst e, firstSeen (snd e))"
  have first: "oldest_step e ([], 0) = ?acc"
    by (simp add: oldest_step_def IsZero_def)
  from assms(2) m have nz: "snd ?acc \<noteq> 0" and m': "\<forall>e\<in>set m'. firstSeen (snd e) \<noteq> 0"
    by simp_all
  from fold_oldest_step_acc [OF m' nz] show ?thesis
    unfolding m by (auto simp add: first)
qed

lemma length_map_delete_distinct:
  assumes "distinct (map fst m)" and "k \<in> fst ` set m"
  shows "Suc (length (map_delete k m)) = length m"
  using assms
proof (induction m)
  case Nil
  then show ?case by simp
next
  case (Cons e m)
  show ?case
  proof (cases "fst e = k")
    case True
    with Cons.prems(1) have "k \<notin> fst ` set m" by auto
    then have "map_delete k m = m"
      by (force simp add: map_delete_def filter_id_conv)
    with True show ?thesis by (simp add: map_delete_def case_prod_unfold)
  next
    case False
    with Cons.prems have "distinct (map fst m)" "k \<in> fst ` set m" by auto
    from Cons.IH [OF this] False show ?thesis
      by (simp add: map_delete_def case_prod_unfold)
  qed
qed

lemma allow_over_capacity_evicts_oldest:
  assumes "map_of (requests rl) ip = None"
    and "maxClients rl < int (length (requests rl))"
    and "distinct (map fst (requests rl))"
    and "\<forall>e\<in>set (requests rl). firstSeen (snd e) \<noteq> 0"
    and "0 \<le> maxClients rl"
  shows "\<exists>k c. (k, c) \<in> set (requests rl)
           \<and> (\<forall>e\<in>set (requests rl). firstSeen c \<le> firstSeen (snd e))
           \<and> requests (snd (allow rl ip maxReq now))
               = map_delete k (requests rl) @ [(ip, \<lparr>count = 1, firstSeen = now\<rparr>)]
           \<and> length (requests (snd (allow rl ip maxReq now))) = length (requests rl)
           \<and> fst (allow rl ip maxReq now) = (True, 0)"
proof -
  let ?r = "fold oldest_step (requests rl) ([], 0)"
  from assms(2) assms(5) have ne: "requests rl \<noteq> []"
    by (cases "requests rl") simp_all
  from fold_oldest_step_oldest [OF ne assms(4)]
  obtain e where e: "e \<in> set (requests rl)" "?r = (fst e, firstSeen (snd e))"
    and least: "\<forall>x\<in>set (requests rl). snd ?r \<le> firstSeen (snd x)"
    by auto
  have ev: "requests (evictOldest rl) = map_delete (fst e) (requests rl)"
    using assms(2) e(2) by (simp add: evictOldest_def)
  have absent: "map_of (map_delete (fst e) (requests rl)) ip = None"
    using assms(1) by (rule map_of_map_delete_absent)
  have req: "requests (snd (allow rl ip maxReq now))
      = map_delete (fst e) (requests rl) @ [(ip, \<lparr>count = 1, firstSeen = now\<rparr>)]"
    using assms(1) assms(2) ev absent
    by (simp add: allow_def exists_def Let_def map_store_absent)
  have "fst e \<in> fst ` set (requests rl)" using e(1) by simp
  from length_map_delete_distinct [OF assms(3) this] req
  have len: "length (requests (snd (allow rl ip maxReq now))) = length (requests rl)"
    by simp
  have "(fst e, snd e) \<in> set (requests rl)" using e(1) by simp
  moreover have "\<forall>x\<in>set (requests rl). firstSeen (snd e) \<le> firstSeen (snd x)"
    using least e(2) by simp
  moreover have "fst (allow rl ip maxReq now) = (True, 0)"
    using assms(1) by (rule allow_absent)
  ultimately show ?thesis using req len by blast
qed

text \<open>The keys of the table stay distinct.\<close>

lemma map_fst_map_store:
  "map fst (map_store k v m) = (if k \<in> fst ` set m then map fst m else map fst m @ [k])"
  by (induction m) (auto simp add: map_store_def)

lemma distinct_map_store:
  "distinct (map fst m) \<Longrightarrow> distinct (map fst (map_store k v m))"
  by (simp add: map_fst_map_store)

lemma distinct_map_delete:
  "distinct (map fst m) \<Longrightarrow> distinct (map fst (map_delete k m))"
  by (simp add: map_delete_def distinct_map_filter)

lemma allow_keeps_keys_distinct:
  assumes "distinct (map fst (requests rl))"
  shows "distinct (map fst (requests (snd (allow rl ip maxReq now))))"
proof -
  have "distinct (map fst (requests (evictOldest rl)))"
    using assms by (simp add: evictOldest_def distinct_map_delete)
  with assms show ?thesis
    by (simp add: allow_def Let_def distinct_map_store split: option.split)
qed

section \<open>Rounding in \<open>Duration.Seconds\<close>\<close>

lemma pow2_power_int: "pow2 k = power_int 2 k"
  by (simp add: pow2_def power_int_def power_one_over)

lemma pow2_pos: "0 < pow2 k"
  by (simp add: pow2_power_int)

lemma pow2_mono: "k \<le> l \<Longrightarrow> pow2 k \<le> pow2 l"
  by (simp add: pow2_power_int power_int_increasing)

lemma pow2_strict_mono: "k < l \<Longrightarrow> pow2 k < pow2 l"
  by (simp add: pow2_power_int power_int_strict_increasing)

lemma pow2_diff: "pow2 (k - l) = pow2 k / pow2 l"
  by (simp add: pow2_power_int power_int_diff)

lemma binade_lower:
  assumes "0 < x"
  shows "pow2 (binade x) \<le> x"
proof -
  obtain a b where ab: "quotient_of x = (a, b)" by (cases "quotient_of x")
  then have b: "0 < b" and x: "x = of_int a / of_int b"
    by (simp_all add: quotient_of_denom_pos quotient_of_div)
  from assms x b have a: "0 < a"
    by (simp add: zero_less_divide_iff)
  let ?k = "bitlen a - bitlen b"
  show ?thesis
  proof (cases "pow2 ?k \<le> x")
    case True
    then show ?thesis by (simp add: binade_def ab Let_def)
  next
    case False
    then have bin: "binade x = ?k - 1" by (simp add: binade_def ab Let_def)
    have ba: "1 \<le> bitlen a"
      using a bitlen_nonneg [of a] bitlen_eq_zero_iff [of a] by arith
    from bitlen_bounds [OF a] have "(2::int) ^ nat (bitlen a - 1) \<le> a" by simp
    then have "(of_int ((2::int) ^ nat (bitlen a - 1)) :: rat) \<le> of_int a"
      by (simp only: of_int_le_iff)
    then have la: "pow2 (bitlen a - 1) \<le> of_int a"
      using ba by (simp add: pow2_def)
    from bitlen_bounds [OF b] have "b \<le> (2::int) ^ nat (bitlen b)" by simp
    then have "(of_int b :: rat) \<le> of_int ((2::int) ^ nat (bitlen b))"
      by (simp only: of_int_le_iff)
    then have lb: "of_int b \<le> pow2 (bitlen b)"
      using bitlen_nonneg [of b] by (simp add: pow2_def)
    have "pow2 (?k - 1) = pow2 (bitlen a - 1) / pow2 (bitlen b)"
      using pow2_diff [of "bitlen a - 1" "bitlen b"] by (simp add: algebra_simps)
    also have "\<dots> \<le> of_int a / pow2 (bitlen b)"
      using la pow2_pos [of "bitlen b"] by (simp add: divide_right_mono)
    also have "\<dots> \<le> of_int a / of_int b"
      using lb a b by (simp add: divide_left_mono)
    finally show ?thesis using bin x by simp
  qed
qed

lemma binade_less:
  assumes "0 < x" and "x < pow2 n"
  shows "binade x < n"
proof (rule ccontr)
  assume "\<not> binade x < n"
  then have "pow2 n \<le> pow2 (binade x)" by (simp add: pow2_mono)
  with binade_lower [OF assms(1)] assms(2) show False by simp
qed

lemma round_half_even_error: "\<bar>of_int (round_half_even y) - y\<bar> \<le> 1 / 2"
proof -
  have "of_int \<lfloor>y\<rfloor> \<le> y" "y < of_int \<lfloor>y\<rfloor> + 1" by linarith+
  then show ?thesis
    by (auto simp add: round_half_even_def Let_def abs_le_iff)
qed

lemma round_half_even_of_int: "round_half_even (of_int n) = n"
  by (simp add: round_half_even_def)

lemma float64_pos_error:
  assumes "0 < x"
  shows "\<bar>float64_pos x - x\<bar> \<le> pow2 (binade x - 52) / 2"
proof -
  let ?u = "pow2 (binade x - 52)"
  have u: "0 < ?u" by (rule pow2_pos)
  have "float64_pos x - x = ?u * (of_int (round_half_even (x / ?u)) - x / ?u)"
    using u by (simp add: float64_pos_def Let_def algebra_simps)
  then have "\<bar>float64_pos x - x\<bar> = ?u * \<bar>of_int (round_half_even (x / ?u)) - x / ?u\<bar>"
    using u by (simp add: abs_mult)
  also have "\<dots> \<le> ?u * (1 / 2)"
    using u round_half_even_error [of "x / ?u"] by (simp add: mult_left_mono)
  finally show ?thesis by simp
qed

lemma float64_pos_of_int:
  assumes "0 < n" and "n < 2 ^ 53"
  shows "float64_pos (of_int n) = of_int n"
proof -
  have "(of_int n :: rat) < pow2 53"
    using assms(2) by (simp add: pow2_def)
  with assms(1) have "binade (of_int n) < 53" by (simp add: binade_less)
  then have e: "binade (of_int n) - 52 \<le> 0" by simp
  define j where "j = nat (- (binade (of_int n) - 52))"
  from e have u: "pow2 (binade (of_int n) - 52) = 1 / 2 ^ j"
    by (cases "binade (of_int n) - 52 = 0") (simp_all add: pow2_def j_def)
  have "of_int n / (1 / 2 ^ j) = (of_int (n * 2 ^ j) :: rat)" by simp
  then have "round_half_even (of_int n / (1 / 2 ^ j)) = n * 2 ^ j"
    by (simp only: round_half_even_of_int)
  then show ?thesis
    by (simp add: float64_pos_def Let_def u)
qed

lemma float64_of_int:
  assumes "0 \<le> n" and "n < 2 ^ 53"
  shows "float64 (of_int n) = of_int n"
  using assms float64_pos_of_int [of n] by (cases "n = 0") (simp_all add: float64_def)
lemma go_quot_rem_nonneg:
  assumes "0 \<le> d"
  shows "go_quot d Second = d div Second" and "go_rem d Second = d mod Second"
  using assms by (cases "d = 0"; simp add: go_quot_def go_rem_def Second_def)+

lemma float64_fraction_bounds:
  assumes "1 \<le> n" and "n < 1000000000"
  shows "1 / 1000000000 - pow2 (- 53) / 2 \<le> float64 (of_int n / 1000000000)"
    and "float64 (of_int n / 1000000000) \<le> 999999999 / 1000000000 + pow2 (- 53) / 2"
proof -
  let ?y = "of_int n / 1000000000 :: rat"
  have lo: "1 / 1000000000 \<le> ?y" using assms(1) by simp
  have "of_int n \<le> (999999999 :: rat)" using assms(2) by simp
  then have hi: "?y \<le> 999999999 / 1000000000" by simp
  have pos: "0 < ?y" using lo by simp
  have "?y < pow2 0" using hi by (simp add: pow2_def)
  with pos have "binade ?y < 0" by (rule binade_less)
  then have "pow2 (binade ?y - 52) \<le> pow2 (- 53)" by (simp add: pow2_mono)
  with float64_pos_error [OF pos] have "\<bar>float64_pos ?y - ?y\<bar> \<le> pow2 (- 53) / 2"
    by simp
  moreover have "float64 ?y = float64_pos ?y" using pos by (simp add: float64_def)
  ultimately have err: "\<bar>float64 ?y - ?y\<bar> \<le> pow2 (- 53) / 2" by simp
  from err lo show "1 / 1000000000 - pow2 (- 53) / 2 \<le> float64 ?y" by linarith
  from err hi show "float64 ?y \<le> 999999999 / 1000000000 + pow2 (- 53) / 2" by linarith
qed

lemma float64_sum_bounds:
  assumes "0 \<le> s" and "s < 16777216"
    and "1 / 1000000000 - pow2 (- 53) / 2 \<le> q"
    and "q \<le> 999999999 / 1000000000 + pow2 (- 53) / 2"
  shows "of_int s \<le> float64 (of_int s + q)" and "float64 (of_int s + q) < of_int s + 1"
proof -
  let ?x = "of_int s + q :: rat"
  have p53: "pow2 (- 53) = 1 / 9007199254740992" by (simp add: pow2_def)
  have p29: "pow2 (- 29) = 1 / 536870912" by (simp add: pow2_def)
  have s0: "(0::rat) \<le> of_int s" using assms(1) by simp
  have "of_int s \<le> (16777215 :: rat)" using assms(2) by simp
  then have s1: "of_int s + 1 \<le> (16777216 :: rat)" by simp
  have qlo: "0 < q" using assms(3) by (simp add: p53)
  have qhi: "q < 1" using assms(4) by (simp add: p53)
  have pos: "0 < ?x" using s0 qlo by simp
  have "?x < pow2 24" using s1 qhi by (simp add: pow2_def)
  with pos have "binade ?x < 24" by (rule binade_less)
  then have "pow2 (binade ?x - 52) \<le> pow2 (- 29)" by (simp add: pow2_mono)
  with float64_pos_error [OF pos] have "\<bar>float64_pos ?x - ?x\<bar> \<le> pow2 (- 29) / 2"
    by simp
  moreover have "float64 ?x = float64_pos ?x" using pos by (simp add: float64_def)
  ultimately have err: "\<bar>float64 ?x - ?x\<bar> \<le> 1 / 1073741824" by (simp add: p29)
  from assms(3) have q1: "1 / 1000000000 - 1 / 18014398509481984 \<le> q" by (simp add: p53)
  from assms(4) have q2: "q \<le> 999999999 / 1000000000 + 1 / 18014398509481984" by (simp add: p53)
  from err q1 show "of_int s \<le> float64 ?x" by linarith
  from err q2 show "float64 ?x < of_int s + 1" by linarith
qed

lemma Seconds_truncates:
  assumes "0 \<le> d" and "d < 16777216 * Second"
  shows "int_of_float (Seconds d) = d div Second"
proof -
  let ?s = "d div Second" and ?n = "d mod Second"
  have s: "0 \<le> ?s" "?s < 16777216"
    using assms unfolding Second_def by arith+
  have n: "0 \<le> ?n" "?n < 1000000000" by (simp_all add: Second_def)
  have fs: "float64 (of_int ?s) = of_int ?s"
    using s by (intro float64_of_int) simp_all
  have fn: "float64 (of_int ?n) = of_int ?n"
    using n by (intro float64_of_int) simp_all
  have sec: "Seconds d = float64 (of_int ?s + float64 (of_int ?n / 1000000000))"
    using assms(1) by (simp add: Seconds_def go_quot_rem_nonneg fs fn)
  show ?thesis
  proof (cases "?n = 0")
    case True
    then have "Seconds d = of_int ?s" using sec fs by (simp add: float64_def)
    then show ?thesis using s(1) by (simp add: int_of_float_def)
  next
    case False
    with n have n1: "1 \<le> ?n" by simp
    note q = float64_fraction_bounds [OF n1 n(2)]
    note x = float64_sum_bounds [OF s q]
    from x have "\<lfloor>Seconds d\<rfloor> = ?s"
      unfolding sec by (simp add: floor_unique)
    moreover have "(0::rat) \<le> of_int ?s" using s(1) by simp
    with x(1) have "0 \<le> Seconds d"
      unfolding sec by linarith
    ultimately show ?thesis by (simp add: int_of_float_def)
  qed
qed

section \<open>The retry hint of a denial\<close>

lemma wrap64_id: "minDuration \<le> x \<Longrightarrow> x \<le> maxDuration \<Longrightarrow> wrap64 x = x"
  by (simp add: wrap64_def minDuration_def maxDuration_def)

lemma allow_denied:
  assumes "\<not> fst (fst (allow rl ip maxReq now))"
  shows "\<exists>c. map_of (requests rl) ip = Some c
           \<and> Sub now (firstSeen c) \<le> window rl
           \<and> maxReq \<le> count c
           \<and> snd (fst (allow rl ip maxReq now)) = wrap64 (window rl - Sub now (firstSeen c))
           \<and> requests (snd (allow rl ip maxReq now)) = requests rl"
proof (cases "map_of (requests rl) ip")
  case None
  then have "fst (allow rl ip maxReq now) = (True, 0)" by (rule allow_absent)
  with assms show ?thesis by simp
next
  case (Some c)
  with assms show ?thesis
    by (simp add: allow_present_no_eviction Let_def split: if_splits)
qed

text \<open>
  On every denial the duration that \<open>allow\<close> returns is \<open>window - now.Sub(firstSeen)\<close>, which
  is not negative because a denial is only reached while \<open>now.Sub(firstSeen) \<le> window\<close>
  (the int64 subtraction is taken not to overflow). The \<open>Retry-After\<close> header is never
  negative, and it is the number of whole seconds of that duration, rounded down, as long
  as the duration is below \<open>2^24\<close> seconds.
\<close>

lemma Middleware_denied_retry_after:
  assumes "fst (Middleware lib rl levelStr ip now) = TooManyRequests secs"
  shows "\<exists>c. map_of (requests rl) ip = Some c
           \<and> Sub now (firstSeen c) \<le> window rl
           \<and> 0 \<le> window rl - Sub now (firstSeen c)
           \<and> 0 \<le> secs
           \<and> (window rl - Sub now (firstSeen c) \<le> maxDuration \<longrightarrow>
                snd (fst (allow rl ip (effective_maxReq rl (NormalizeLogLevel lib levelStr)) now))
                  = window rl - Sub now (firstSeen c))
           \<and> (window rl - Sub now (firstSeen c) < 16777216 * Second \<longrightarrow>
                secs = (window rl - Sub now (firstSeen c)) div Second)"
proof -
  let ?q = "effective_maxReq rl (NormalizeLogLevel lib levelStr)"
  let ?a = "allow rl ip ?q now"
  from assms have lvl: "\<not> LevelLessThan (NormalizeLogLevel lib levelStr) (minLevel rl)"
    by (auto simp add: Middleware_def Let_def split: if_splits)
  with assms have den: "\<not> fst (fst ?a)"
    by (auto simp add: Middleware_def Let_def split: if_splits)
  from assms lvl den have secs: "secs = (let s = int_of_float (Seconds (snd (fst ?a)))
                                         in if s < 0 then 0 else s)"
    by (simp add: Middleware_def Let_def)
  from allow_denied [OF den] obtain c where c: "map_of (requests rl) ip = Some c"
    and le: "Sub now (firstSeen c) \<le> window rl"
    and ra: "snd (fst ?a) = wrap64 (window rl - Sub now (firstSeen c))"
    by blast
  let ?r = "window rl - Sub now (firstSeen c)"
  have r0: "0 \<le> ?r" using le by simp
  have nonneg: "0 \<le> secs" using secs by (simp add: Let_def)
  have exact: "?r \<le> maxDuration \<Longrightarrow> snd (fst ?a) = ?r"
    using ra r0 by (simp add: wrap64_id minDuration_def)
  have floor: "secs = ?r div Second" if small: "?r < 16777216 * Second"
  proof -
    from small have "?r \<le> maxDuration" by (simp add: Second_def maxDuration_def)
    then have "snd (fst ?a) = ?r" by (rule exact)
    moreover have "int_of_float (Seconds ?r) = ?r div Second"
      using r0 small by (rule Seconds_truncates)
    moreover have "0 \<le> ?r div Second"
      using r0 by (simp add: Second_def pos_imp_zdiv_nonneg_iff)
    ultimately show ?thesis using secs by (simp add: Let_def)
  qed
  from c le r0 nonneg exact floor show ?thesis by blast
qed

lemma Seconds_rounds_up: "int_of_float (Seconds 33554431999999999) = 33554432"
  by code_simp

text \<open>
  Claim C7 on the code. The number of seconds in the \<open>Retry-After\<close> header is
  \<open>int(retryAfter.Seconds())\<close>, and \<open>Seconds\<close> adds two float64 numbers. With a window of
  \<open>2^25\<close> seconds, quota 1, a first request at clock reading 1000 and a second one a
  nanosecond later, the denial carries \<open>retryAfter = 33554431.999999999 s\<close>, not negative and
  equal to the window minus the elapsed time; but the header says 33554432, which is that
  duration rounded up, where rounding down gives 33554431.
\<close>

theorem Middleware_retry_after_rounded_up:
  "fst (allow \<lparr>requests = [(''1.2.3.4'', \<lparr>count = 1, firstSeen = 1000\<rparr>)], maxRequests = 1,
          maxClients = 10, window = 33554432 * Second, minLevel = ''INFO'',
          perLevelLimits = None, requestsTotal = 1, blockedTotal = 0, activeClients = 1\<rparr>
        ''1.2.3.4'' 1 1001) = (False, 33554431999999999)
   \<and> fst (serve lib \<lparr>requests = [], maxRequests = 1, maxClients = 10, window = 33554432 * Second,
          minLevel = ''INFO'', perLevelLimits = None, requestsTotal = 0, blockedTotal = 0,
          activeClients = 0\<rparr> ''INFO'' ''1.2.3.4'' [1000, 1001])
       = [Next, TooManyRequests 33554432]
   \<and> 33554431999999999 div Second = 33554431"
proof -
  have n: "NormalizeLogLevel lib ''INFO'' = ''INFO''" by (rule NormalizeLogLevel_INFO)
  have s: "Sub 1001 1000 = 1" by (simp add: Sub_def maxDuration_def minDuration_def)
  have w: "wrap64 33554431999999999 = 33554431999999999" by (simp add: wrap64_def)
  show ?thesis
    by (simp add: n s w Seconds_rounds_up not_LevelLessThan_INFO_INFO Middleware_def Let_def
        allow_def exists_def effective_maxReq_def map_store_def Second_def)
qed

section \<open>Retention sweep of the store\<close>

lemma fold_max_ge: "(a::int) \<le> fold max xs a \<and> (\<forall>x\<in>set xs. x \<le> fold max xs a)"
proof (induction xs arbitrary: a)
  case Nil
  then show ?case by simp
next
  case (Cons x xs)
  from Cons.IH [of "max x a"] show ?case by auto
qed

lemma sql_insert_logs:
  "logs (sql_insert l lvl msg ts ctx) = logs l @ [\<lparr>row_id = max (sqlite_sequence l) (fold max (map row_id (logs l)) 0) + 1,
       row_level = lvl, row_message = msg, row_timestamp = ts, row_context = ctx\<rparr>]"
  by (simp add: sql_insert_def Let_def)

lemma sql_insert_ids_increasing:
  assumes "sorted_wrt (<) (map row_id (logs l))"
  shows "sorted_wrt (<) (map row_id (logs (sql_insert l lvl msg ts ctx)))"
proof -
  have "\<forall>x\<in>set (map row_id (logs l)). x < max (sqlite_sequence l) (fold max (map row_id (logs l)) 0) + 1"
    using fold_max_ge [of 0 "map row_id (logs l)"] by fastforce
  with assms show ?thesis
    by (simp add: sql_insert_logs sorted_wrt_append)
qed

lemma sql_insert_config:
  "maxRows (sql_insert l lvl msg ts ctx) = maxRows l"
  "logMinLevel (sql_insert l lvl msg ts ctx) = logMinLevel l"
  by (simp_all add: sql_insert_def Let_def)

lemma Write_accepted:
  assumes "accepted lib l e"
  shows "\<exists>i. snd (Write lib l e None)
               = sql_insert l (row_level (stored_row lib i e)) (row_message (stored_row lib i e))
                   (row_timestamp (stored_row lib i e)) (row_context (stored_row lib i e))
           \<and> logs (snd (Write lib l e None)) = logs l @ [stored_row lib i e]"
proof -
  let ?i = "max (sqlite_sequence l) (fold max (map row_id (logs l)) 0) + 1"
  have w: "snd (Write lib l e None)
      = sql_insert l (row_level (stored_row lib ?i e)) (row_message (stored_row lib ?i e))
          (row_timestamp (stored_row lib ?i e)) (row_context (stored_row lib ?i e))"
    using assms by (simp add: Write_def accepted_def Let_def stored_row_def)
  have "logs (snd (Write lib l e None)) = logs l @ [stored_row lib ?i e]"
    by (simp add: w sql_insert_logs) (simp add: stored_row_def)
  with w show ?thesis by blast
qed

lemma write_all_accepted:
  assumes "list_all (accepted lib l) es"
    and "sorted_wrt (<) (map row_id (logs l))"
  shows "\<exists>ids. length ids = length es
           \<and> logs (write_all lib l es) = logs l @ map2 (stored_row lib) ids es
           \<and> sorted_wrt (<) (map row_id (logs (write_all lib l es)))
           \<and> maxRows (write_all lib l es) = maxRows l"
  using assms
proof (induction es arbitrary: l)
  case Nil
  then show ?case by simp
next
  case (Cons e es)
  let ?l = "snd (Write lib l e None)"
  from Cons.prems(1) have acc: "accepted lib l e" by simp
  from Write_accepted [OF acc] obtain i where
    w: "?l = sql_insert l (row_level (stored_row lib i e)) (row_message (stored_row lib i e))
                   (row_timestamp (stored_row lib i e)) (row_context (stored_row lib i e))"
    and lg: "logs ?l = logs l @ [stored_row lib i e]"
    by blast
  have cfg: "maxRows ?l = maxRows l" "logMinLevel ?l = logMinLevel l"
    by (simp_all add: w sql_insert_config)
  have "accepted lib ?l = accepted lib l"
    by (simp add: accepted_def cfg fun_eq_iff)
  then have acc': "list_all (accepted lib ?l) es"
    using Cons.prems(1) by simp
  have inc: "sorted_wrt (<) (map row_id (logs ?l))"
    unfolding w using Cons.prems(2) by (rule sql_insert_ids_increasing)
  from Cons.IH [OF acc' inc] obtain ids where
    ids: "length ids = length es"
      "logs (write_all lib ?l es) = logs ?l @ map2 (stored_row lib) ids es"
      "sorted_wrt (<) (map row_id (logs (write_all lib ?l es)))"
      "maxRows (write_all lib ?l es) = maxRows ?l"
    by blast
  have "logs (write_all lib l (e # es)) = logs l @ map2 (stored_row lib) (i # ids) (e # es)"
    using ids(2) lg by simp
  moreover have "length (i # ids) = length (e # es)" using ids(1) by simp
  ultimately show ?case using ids(3) ids(4) cfg(1) by (intro exI [of _ "i # ids"]) simp
qed

lemma filter_drop_distinct:
  assumes "distinct (map f xs)"
  shows "filter (\<lambda>x. f x \<in> f ` set (drop k xs)) xs = drop k xs"
proof -
  have d: "distinct (map f (take k xs @ drop k xs))" using assms by simp
  then have disj: "f ` set (take k xs) \<inter> f ` set (drop k xs) = {}"
    by (simp only: map_append distinct_append set_map) 
  have "filter (\<lambda>x. f x \<in> f ` set (drop k xs)) (take k xs) = []"
    using disj by (auto simp add: filter_empty_conv)
  moreover have "filter (\<lambda>x. f x \<in> f ` set (drop k xs)) (drop k xs) = drop k xs"
    by (simp add: filter_id_conv)
  ultimately have "filter (\<lambda>x. f x \<in> f ` set (drop k xs)) (take k xs @ drop k xs) = drop k xs"
    by (simp only: filter_append append_Nil)
  then show ?thesis by simp
qed

lemma GenerateCleanupQuery_keeps_last:
  assumes "sorted_wrt (<) (map row_id rs)" and "0 \<le> n"
  shows "GenerateCleanupQuery n rs = drop (length rs - nat n) rs"
proof -
  let ?ids = "map row_id rs"
  from assms(1) have "sorted ?ids \<and> distinct ?ids"
    by (simp only: strict_sorted_iff)
  then have srt: "sorted ?ids" and dist: "distinct ?ids" by simp_all
  have "sort ?ids = ?ids" using srt by (rule sorted_sort_id)
  then have "sql_limit n (rev (sort ?ids)) = rev (drop (length rs - nat n) ?ids)"
    using assms(2) by (simp add: sql_limit_def take_rev)
  then have "set (sql_limit n (rev (sort ?ids))) = row_id ` set (drop (length rs - nat n) rs)"
    by (simp add: drop_map)
  then have "GenerateCleanupQuery n rs
      = filter (\<lambda>r. row_id r \<in> row_id ` set (drop (length rs - nat n) rs)) rs"
    by (simp add: GenerateCleanupQuery_def Let_def)
  also have "\<dots> = drop (length rs - nat n) rs"
    using dist by (rule filter_drop_distinct)
  finally show ?thesis .
qed

text \<open>
  The ids of the table grow with the order of insertion; \<open>Write\<close> and \<open>cleanup\<close> keep it so.
\<close>

lemma Write_ids_increasing:
  assumes "sorted_wrt (<) (map row_id (logs l))"
  shows "sorted_wrt (<) (map row_id (logs (snd (Write lib l entry fault))))"
  using assms sql_insert_ids_increasing [OF assms]
  by (simp add: Write_def Let_def split: option.split)

lemma cleanup_ids_increasing:
  assumes "sorted_wrt (<) (map row_id (logs l))"
  shows "sorted_wrt (<) (map row_id (logs (snd (cleanup l fault))))"
proof -
  have "sorted_wrt (<) (map row_id (filter P (logs l)))" for P
    using assms by (simp add: sorted_wrt_map sorted_wrt_filter)
  with assms show ?thesis
    by (simp add: cleanup_def GenerateCleanupQuery_def Let_def split: option.split)
qed

lemma cleanup_keeps_last:
  assumes "sorted_wrt (<) (map row_id (logs l))" and "0 < maxRows l"
  shows "cleanup l None = (None, l\<lparr>logs := drop (length (logs l) - nat (maxRows l)) (logs l)\<rparr>)"
  using assms by (simp add: cleanup_def GenerateCleanupQuery_keeps_last)


lemma length_sql_order_by_timestamp_desc:
  "length (sql_order_by_timestamp_desc path rs) = length rs"
  by (simp add: sql_order_by_timestamp_desc_def)


lemma insort_key_map:
  "insort_key g (f x) (map f ys) = map f (insort_key (\<lambda>y. g (f y)) x ys)"
  by (induction ys) simp_all

lemma sort_key_map: "sort_key g (map f xs) = map f (sort_key (\<lambda>y. g (f y)) xs)"
  by (induction xs) (simp_all add: insort_key_map)

lemma sql_order_by_timestamp_desc_map:
  "\<exists>ys. mset ys = mset zs \<and> sql_order_by_timestamp_desc path (map f zs) = map f ys"
proof -
  let ?ys = "rev (sort_key (\<lambda>y. row_timestamp (f y)) (rev (sort_key (\<lambda>y. path (f y)) zs)))"
  have "sql_order_by_timestamp_desc path (map f zs) = map f ?ys"
    by (simp add: sql_order_by_timestamp_desc_def sort_key_map rev_map)
  moreover have "mset ?ys = mset zs" by simp
  ultimately show ?thesis by blast
qed

lemma sql_select_first_page:
  assumes "length rs \<le> 20"
  shows "sql_select path [] 20 0 rs = sql_order_by_timestamp_desc path rs"
  using assms
  by (simp add: sql_select_def sql_limit_def sql_offset_def sql_where_level_def
      length_sql_order_by_timestamp_desc)

lemma scan_rows_stored:
  "map (\<lambda>(j, r). scan_row lib (clock j) r) (enumerate n (map (\<lambda>(i, e). stored_row lib i e) ys))
     = map (\<lambda>(j, e). read_back lib (clock j) e) (enumerate n (map snd ys))"
  by (induction ys arbitrary: n)
    (auto simp add: read_back_def scan_row_def stored_row_def)

lemma read_back_fields:
  "Level (read_back lib now e) = NormalizeLogLevel lib (Level e)"
  "Message (read_back lib now e) = Message e"
  "Timestamp (read_back lib now e)
     = SafeParseTimestamp lib now (time_Format lib (Timestamp e))"
  by (simp_all add: read_back_def scan_row_def stored_row_def)

text \<open>
  Claim C5. With a positive row bound, one run of \<open>cleanup\<close> that the database executes
  leaves exactly the \<open>maxRows\<close> rows that were inserted last (all rows, if there are fewer):
  the rows are told apart by their id, which grows with every insertion, and their
  timestamps play no part. In particular, with \<open>maxRows = 5\<close>, after ten entries have been
  written and inserted and the sweep has run once, the table holds the rows of the five
  entries written last, and \<open>QueryLogs\<close> for page 1 with limit 20 and no level filter,
  answered by the driver without a fault, returns at most five entries: they are what the
  loop of \<open>QueryLogs\<close> reads back from the rows of the five entries written last, each once,
  whatever their timestamps and in whatever order the engine lists them.
\<close>

theorem cleanup_keeps_most_recently_inserted:
  assumes "sorted_wrt (<) (map row_id (logs l))" and "0 < maxRows l"
  shows "cleanup l None
           = (None, l\<lparr>logs := drop (length (logs l) - nat (maxRows l)) (logs l)\<rparr>)
       \<and> (maxRows l = 5 \<and> length es = 10 \<and> list_all (accepted lib l) es \<and> no_fault d
          \<longrightarrow> (\<exists>ids kept res.
                 length ids = 10
                 \<and> logs (write_all lib l es) = logs l @ map2 (stored_row lib) ids es
                 \<and> logs (snd (cleanup (write_all lib l es) None))
                     = map2 (stored_row lib) (drop 5 ids) (drop 5 es)
                 \<and> QueryLogs lib clock d (snd (cleanup (write_all lib l es) None)) [] 1 20
                     = Inr res
                 \<and> length res \<le> 5
                 \<and> mset kept = mset (drop 5 es)
                 \<and> res = map (\<lambda>(j, e). read_back lib (clock j) e) (enumerate 0 kept)
                 \<and> map (\<lambda>e. (Level e, Message e)) res
                     = map (\<lambda>e. (NormalizeLogLevel lib (Level e), Message e)) kept))"
proof (intro conjI impI)
  show "cleanup l None = (None, l\<lparr>logs := drop (length (logs l) - nat (maxRows l)) (logs l)\<rparr>)"
    using assms by (rule cleanup_keeps_last)
next
  let ?w = "write_all lib l es"
  let ?c = "snd (cleanup ?w None)"
  let ?f = "\<lambda>(i, e). stored_row lib i e"
  assume h: "maxRows l = 5 \<and> length es = 10 \<and> list_all (accepted lib l) es \<and> no_fault d"
  then have five: "maxRows l = 5" and ten: "length es = 10"
    and acc: "list_all (accepted lib l) es" and nf: "no_fault d"
    by simp_all
  from write_all_accepted [OF acc assms(1)] obtain ids where
    len: "length ids = length es"
    and lg: "logs ?w = logs l @ map2 (stored_row lib) ids es"
    and inc: "sorted_wrt (<) (map row_id (logs ?w))" and mr: "maxRows ?w = maxRows l"
    by blast
  have pos: "0 < maxRows ?w" using mr five by simp
  have "logs ?c = drop (length (logs ?w) - nat (maxRows ?w)) (logs ?w)"
    using cleanup_keeps_last [OF inc pos] by simp
  then have "logs ?c = drop 5 (map2 (stored_row lib) ids es)"
    using lg len ten mr five by simp
  then have kept: "logs ?c = map ?f (zip (drop 5 ids) (drop 5 es))"
    by (simp add: drop_map drop_zip)
  let ?zs = "zip (drop 5 ids) (drop 5 es)"
  from sql_order_by_timestamp_desc_map [of ?zs "access_path d" ?f] obtain ys where
    ys: "mset ys = mset ?zs"
    and ord: "sql_order_by_timestamp_desc (access_path d) (map ?f ?zs) = map ?f ys"
    by blast
  have l5: "length (logs ?c) = 5" using len ten by (simp add: kept)
  have sel: "sql_select (access_path d) [] 20 0 (logs ?c) = map ?f ys"
    using l5 ord by (simp add: sql_select_first_page kept)
  have v: "ValidatePageLimit 1 20 = Inr (1, 20)" by (simp add: ValidatePageLimit_def)
  have w0: "wrap64 ((1 - 1) * 20) = 0" by (simp add: wrap64_def)
  have q: "QueryLogs lib clock d ?c [] 1 20
             = Inr (scan_rows lib clock
                      (sql_select (access_path d) [] 20 (wrap64 ((1 - 1) * 20)) (logs ?c)))"
    by (rule QueryLogs_no_fault [OF v _ nf]) simp
  let ?kept = "map snd ys"
  let ?res = "map (\<lambda>(j, e). read_back lib (clock j) e) (enumerate 0 ?kept)"
  have res: "QueryLogs lib clock d ?c [] 1 20 = Inr ?res"
    unfolding q w0 sel by (simp add: scan_rows_def scan_rows_stored)
  have "mset ?kept = image_mset snd (mset ys)" by simp
  also have "\<dots> = image_mset snd (mset ?zs)" by (simp only: ys)
  also have "\<dots> = mset (map snd ?zs)" by simp
  also have "\<dots> = mset (drop 5 es)" using len by simp
  finally have mk: "mset ?kept = mset (drop 5 es)" .
  then have "size (mset ?kept) = size (mset (drop 5 es))" by simp
  then have lk: "length ?kept = 5" using ten by simp
  have lr: "length ?res \<le> 5" using lk by simp
  have pr: "map (\<lambda>e. (Level e, Message e)) (map (\<lambda>(j, e). read_back lib (clock j) e) (enumerate n ks))
      = map (\<lambda>e. (NormalizeLogLevel lib (Level e), Message e)) ks" for n ks
    by (induction ks arbitrary: n) (simp_all add: read_back_fields)
  have "length ids = 10" using len ten by simp
  with lg kept res lr mk pr [of 0 ?kept]
  show "\<exists>ids kept res.
                 length ids = 10
                 \<and> logs (write_all lib l es) = logs l @ map2 (stored_row lib) ids es
                 \<and> logs (snd (cleanup (write_all lib l es) None))
                     = map2 (stored_row lib) (drop 5 ids) (drop 5 es)
                 \<and> QueryLogs lib clock d (snd (cleanup (write_all lib l es) None)) [] 1 20
                     = Inr res
                 \<and> length res \<le> 5
                 \<and> mset kept = mset (drop 5 es)
                 \<and> res = map (\<lambda>(j, e). read_back lib (clock j) e) (enumerate 0 kept)
                 \<and> map (\<lambda>e. (Level e, Message e)) res
                     = map (\<lambda>e. (NormalizeLogLevel lib (Level e), Message e)) kept"
    by blast
qed

lemma sweep_entries_accepted: "list_all (accepted sample_library sweep_store) sweep_entries"
  by code_simp

lemma sweep_store_after:
  "logs (snd (cleanup (write_all sample_library sweep_store sweep_entries) None)) = sweep_rows"
  by code_simp

lemma sweep_select: "sql_select row_id [] 20 0 sweep_rows = sweep_rows"
  by code_simp

lemma sweep_scan:
  "scan_rows sample_library sample_clock sweep_rows
     = map (read_back sample_library (sample_time 60)) (drop 5 sweep_entries)"
  by code_simp

lemma sweep_query:
  "QueryLogs sample_library sample_clock rowid_driver
      (snd (cleanup (write_all sample_library sweep_store sweep_entries) None)) [] 1 20
     = Inr (map (read_back sample_library (sample_time 60)) (drop 5 sweep_entries))"
proof -
  have v: "ValidatePageLimit 1 20 = Inr (1, 20)" by (simp add: ValidatePageLimit_def)
  have w0: "wrap64 0 = 0" by (simp add: wrap64_def)
  have ap: "access_path rowid_driver = row_id" by (simp add: rowid_driver_def)
  show ?thesis
    using QueryLogs_no_fault [OF v _ no_fault_rowid_driver, of "[]" sample_library sample_clock
        "snd (cleanup (write_all sample_library sweep_store sweep_entries) None)"]
    by (simp add: w0 ap sweep_store_after sweep_select sweep_scan)
qed

lemma sweep_read_back:
  "map (read_back sample_library (sample_time 60)) (drop 5 sweep_entries) = drop 5 sweep_entries"
  by code_simp

theorem cleanup_keeps_most_recently_inserted_witness:
  "sorted_wrt (<) (map row_id (logs sweep_store)) \<and> 0 < maxRows sweep_store
   \<and> maxRows sweep_store = 5 \<and> length sweep_entries = 10
   \<and> list_all (accepted sample_library sweep_store) sweep_entries
   \<and> no_fault rowid_driver
   \<and> (\<exists>ids kept res.
         length ids = 10
         \<and> logs (write_all sample_library sweep_store sweep_entries)
             = logs sweep_store @ map2 (stored_row sample_library) ids sweep_entries
         \<and> logs (snd (cleanup (write_all sample_library sweep_store sweep_entries) None))
             = map2 (stored_row sample_library) (drop 5 ids) (drop 5 sweep_entries)
         \<and> QueryLogs sample_library sample_clock rowid_driver
              (snd (cleanup (write_all sample_library sweep_store sweep_entries) None)) [] 1 20
             = Inr res
         \<and> length res \<le> 5
         \<and> mset kept = mset (drop 5 sweep_entries)
         \<and> res = map (\<lambda>(j, e). read_back sample_library (sample_clock j) e) (enumerate 0 kept)
         \<and> map (\<lambda>e. (Level e, Message e)) res
             = map (\<lambda>e. (NormalizeLogLevel sample_library (Level e), Message e)) kept)
   \<and> QueryLogs sample_library sample_clock rowid_driver
        (snd (cleanup (write_all sample_library sweep_store sweep_entries) None)) [] 1 20
       = Inr (drop 5 sweep_entries)
   \<and> map Message (drop 5 sweep_entries) = [''log 5'', ''log 6'', ''log 7'', ''log 8'', ''log 9'']"
proof -
  have h1: "sorted_wrt (<) (map row_id (logs sweep_store))" by (simp add: sweep_store_def)
  have h2: "0 < maxRows sweep_store" by (simp add: sweep_store_def)
  have h3: "maxRows sweep_store = 5" by (simp add: sweep_store_def)
  have h4: "length sweep_entries = 10" by (simp add: sweep_entries_def)
  have m: "map Message (drop 5 sweep_entries)
       = [''log 5'', ''log 6'', ''log 7'', ''log 8'', ''log 9'']"
    by (simp add: sweep_entries_def)
  from cleanup_keeps_most_recently_inserted [OF h1 h2, of sweep_entries sample_library
      rowid_driver sample_clock]
    h3 h4 sweep_entries_accepted no_fault_rowid_driver
  have "\<exists>ids kept res.
         length ids = 10
         \<and> logs (write_all sample_library sweep_store sweep_entries)
             = logs sweep_store @ map2 (stored_row sample_library) ids sweep_entries
         \<and> logs (snd (cleanup (write_all sample_library sweep_store sweep_entries) None))
             = map2 (stored_row sample_library) (drop 5 ids) (drop 5 sweep_entries)
         \<and> QueryLogs sample_library sample_clock rowid_driver
              (snd (cleanup (write_all sample_library sweep_store sweep_entries) None)) [] 1 20
             = Inr res
         \<and> length res \<le> 5
         \<and> mset kept = mset (drop 5 sweep_entries)
         \<and> res = map (\<lambda>(j, e). read_back sample_library (sample_clock j) e) (enumerate 0 kept)
         \<and> map (\<lambda>e. (Level e, Message e)) res
             = map (\<lambda>e. (NormalizeLogLevel sample_library (Level e), Message e)) kept"
    by blast
  with h1 h2 h3 h4 sweep_entries_accepted no_fault_rowid_driver sweep_query m show ?thesis
    by (simp only: sweep_read_back simp_thms)
qed

text \<open>
  What is read back is the row, not the entry as it was written: a timestamp text that
  \<open>time.Parse\<close> refuses, such as that of a time in the year 10000, comes back as the reading
  of the clock during the query.
\<close>

lemma read_back_year_10000:
  "Timestamp (read_back sample_library (sample_time 60)
       \<lparr>Level = ''INFO'', Message = ''m'', Timestamp = year_10000, Context = NilContext\<rparr>)
     = sample_time 60"
  by code_simp

section \<open>Order and window of a query\<close>










lemma sweep_page_2:
  "take (nat 2) (drop (nat ((2 - 1) * 2)) (sql_order_by_timestamp_desc row_id
      (sql_where_level [] sweep_rows))) = take 2 (drop 2 sweep_rows)"
  by code_simp



end
